(* ===== verification/GoPrelude.thy ===== *)
theory GoPrelude
  imports Main "HOL-Library.Word"
begin

text \<open>
  Shared vocabulary of the development: Go's integer widths, durations and instants, the decimal
  conversions of \<open>strconv\<close>, error values with \<open>errors.Is\<close>, contexts, loggers, and the hint
  collections the component theories extend.

  Conventions. A Go \<open>int\<close>, \<open>int64\<close> or \<open>time.Duration\<close> is an \<open>int\<close> whose arithmetic goes
  through \<open>wrap64\<close>, so wrap-around is visible wherever the code adds or subtracts; a Go
  \<open>uint64\<close> is a \<open>64 word\<close>. A string is its bytes. A pointer or interface that may be nil is an
  \<open>option\<close>.
\<close>

named_theorems i64_simps \<open>rewriting of in-range 64-bit arithmetic\<close>
named_theorems disposition_simps \<open>which broker calls a trace holds\<close>

section \<open>Integers\<close>

type_synonym duration = int
type_synonym time = int
type_synonym uint64 = "64 word"
type_synonym byte = "8 word"

definition wrap64 :: "int \<Rightarrow> int" where
  "wrap64 x = (x + 2 ^ 63) mod 2 ^ 64 - 2 ^ 63"

definition in_i64 :: "int \<Rightarrow> bool" where
  "in_i64 x \<longleftrightarrow> - (2 ^ 63) \<le> x \<and> x < 2 ^ 63"

definition maxInt64 :: int where
  "maxInt64 = 2 ^ 63 - 1"

definition minInt64 :: int where
  "minInt64 = - (2 ^ 63)"

lemma wrap64_id [i64_simps]: "in_i64 x \<Longrightarrow> wrap64 x = x"
  by (simp add: wrap64_def in_i64_def)

lemma wrap64_in_i64 [simp, intro]: "in_i64 (wrap64 x)"
proof -
  have "0 \<le> (x + 2 ^ 63) mod 2 ^ 64" "(x + 2 ^ 63) mod 2 ^ 64 < (2 ^ 64 :: int)"
    by simp_all
  then show ?thesis by (simp add: wrap64_def in_i64_def)
qed

lemma wrap64_idem [simp]: "wrap64 (wrap64 x) = wrap64 x"
  by (simp add: wrap64_id)

lemma wrap64_add_left [simp]: "wrap64 (wrap64 a + b) = wrap64 (a + b)"
proof -
  have "(((a + 2 ^ 63) mod 2 ^ 64 - 2 ^ 63 + b) + 2 ^ 63) mod 2 ^ 64 = ((a + 2 ^ 63) mod 2 ^ 64 + b) mod (2 ^ 64 :: int)"
    by (simp add: algebra_simps)
  also have "\<dots> = ((a + 2 ^ 63) + b) mod 2 ^ 64"
    by (rule mod_add_left_eq)
  also have "\<dots> = (a + b + 2 ^ 63) mod 2 ^ 64"
    by (simp add: ac_simps)
  finally show ?thesis by (simp add: wrap64_def)
qed

lemma in_i64_between: "in_i64 b \<Longrightarrow> 0 \<le> x \<Longrightarrow> x \<le> b \<Longrightarrow> in_i64 x"
  by (simp add: in_i64_def)

lemma in_i64_small [intro]: "- (2 ^ 62) \<le> x \<Longrightarrow> x \<le> 2 ^ 62 \<Longrightarrow> in_i64 x"
  by (simp add: in_i64_def)

text \<open>Go's integer division truncates towards zero.\<close>

definition quot :: "int \<Rightarrow> int \<Rightarrow> int" where
  "quot a b = sgn a * sgn b * (\<bar>a\<bar> div \<bar>b\<bar>)"

lemma quot_nonneg: "0 \<le> a \<Longrightarrow> 0 < b \<Longrightarrow> quot a b = a div b"
  by (cases "a = 0") (simp_all add: quot_def)

section \<open>Durations and instants\<close>

text \<open>Durations count nanoseconds; an instant is the nanosecond count since the Unix epoch.\<close>

definition second :: duration where
  "second = 1000000000"

definition minute :: duration where
  "minute = 60 * second"

definition hour :: duration where
  "hour = 60 * minute"

lemmas duration_units = second_def minute_def hour_def

text \<open>\<open>time.Time.Sub\<close> saturates at the ends of \<open>time.Duration\<close>.\<close>

definition time_sub :: "time \<Rightarrow> time \<Rightarrow> duration" where
  "time_sub a b = max minInt64 (min maxInt64 (a - b))"

lemma time_sub_nonneg: "b \<le> a \<Longrightarrow> 0 \<le> time_sub a b"
  by (simp add: time_sub_def maxInt64_def minInt64_def)

lemma time_sub_le: "b \<le> a \<Longrightarrow> time_sub a b \<le> a - b"
  by (simp add: time_sub_def maxInt64_def minInt64_def)

lemma time_sub_in_i64 [simp]: "in_i64 (time_sub a b)"
  by (simp add: time_sub_def in_i64_def maxInt64_def minInt64_def)

lemma time_sub_mono: "a \<le> a' \<Longrightarrow> b' \<le> b \<Longrightarrow> time_sub a b \<le> time_sub a' b'"
  by (simp add: time_sub_def maxInt64_def minInt64_def)

section \<open>strconv\<close>

definition digit :: "nat \<Rightarrow> char" where
  "digit n = char_of (48 + n)"

fun utoa :: "nat \<Rightarrow> string" where
  "utoa n = (if n < 10 then [digit n] else utoa (n div 10) @ [digit (n mod 10)])"

declare utoa.simps [simp del]

definition itoa :: "int \<Rightarrow> string" where
  "itoa i = (if i < 0 then CHR ''-'' # utoa (nat (- i)) else utoa (nat i))"

definition is_digit :: "char \<Rightarrow> bool" where
  "is_digit c \<longleftrightarrow> 48 \<le> (of_char c :: nat) \<and> (of_char c :: nat) \<le> 57"

definition parse_step :: "nat option \<Rightarrow> char \<Rightarrow> nat option" where
  "parse_step acc c = (case acc of None \<Rightarrow> None
     | Some n \<Rightarrow> if is_digit c then Some (10 * n + (of_char c - 48)) else None)"

definition parse_digits :: "string \<Rightarrow> nat option" where
  "parse_digits s = (if s = [] then None else foldl parse_step (Some 0) s)"

text \<open>\<open>strconv.Atoi\<close>: an optional sign, at least one digit, and a value that fits; \<open>None\<close> is the
  returned error.\<close>

definition atoi :: "string \<Rightarrow> int option" where
  "atoi s =
     (let neg = (case s of c # _ \<Rightarrow> c = CHR ''-'' | [] \<Rightarrow> False);
          body = (case s of c # cs \<Rightarrow> if c = CHR ''-'' \<or> c = CHR ''+'' then cs else s | [] \<Rightarrow> s)
      in case parse_digits body of None \<Rightarrow> None
         | Some n \<Rightarrow> let v = (if neg then - int n else int n)
                    in if in_i64 v then Some v else None)"

lemma of_char_digit [simp]: "n < 10 \<Longrightarrow> (of_char (digit n) :: nat) = 48 + n"
  by (simp add: digit_def take_bit_nat_def)

lemma is_digit_digit [simp]: "n < 10 \<Longrightarrow> is_digit (digit n)"
  by (simp add: is_digit_def)

lemma utoa_nonempty [simp]: "utoa n \<noteq> []"
  by (subst utoa.simps) simp

lemma utoa_digits: "c \<in> set (utoa n) \<Longrightarrow> is_digit c"
proof (induction n rule: utoa.induct)
  case (1 n)
  show ?case
  proof (cases "n < 10")
    case True
    with "1.prems" show ?thesis by (simp add: utoa.simps [of n])
  next
    case False
    with "1.prems" have "c \<in> set (utoa (n div 10)) \<or> c = digit (n mod 10)"
      by (auto simp: utoa.simps [of n])
    with "1.IH" [OF False] show ?thesis by auto
  qed
qed

lemma parse_utoa: "foldl parse_step (Some 0) (utoa n) = Some n"
proof (induction n rule: utoa.induct)
  case (1 n)
  show ?case
  proof (cases "n < 10")
    case True
    then show ?thesis by (simp add: utoa.simps [of n] parse_step_def)
  next
    case False
    with "1.IH" [OF False] show ?thesis by (simp add: utoa.simps [of n] parse_step_def)
  qed
qed

lemma parse_digits_utoa [simp]: "parse_digits (utoa n) = Some n"
  by (simp add: parse_digits_def parse_utoa)

lemma not_digit_sign: "\<not> is_digit (CHR ''-'')" "\<not> is_digit (CHR ''+'')"
  by (simp_all add: is_digit_def)

lemma utoa_Cons_no_sign: "utoa n = c # cs \<Longrightarrow> c \<noteq> CHR ''-'' \<and> c \<noteq> CHR ''+''"
  using utoa_digits [of c n] not_digit_sign by auto

lemma atoi_itoa [simp]: "in_i64 i \<Longrightarrow> atoi (itoa i) = Some i"
proof (cases "i < 0")
  case True
  moreover assume "in_i64 i"
  ultimately show ?thesis by (simp add: atoi_def itoa_def)
next
  case False
  moreover assume "in_i64 i"
  moreover obtain c cs where u: "utoa (nat i) = c # cs"
    using utoa_nonempty [of "nat i"] by (cases "utoa (nat i)") auto
  moreover have "parse_digits (c # cs) = Some (nat i)"
    using parse_digits_utoa [of "nat i"] by (simp add: u)
  ultimately show ?thesis
    using utoa_Cons_no_sign [OF u] by (simp add: atoi_def itoa_def)
qed

lemma itoa_nonempty [simp]: "itoa i \<noteq> []"
  by (simp add: itoa_def)

section \<open>ASCII case folding\<close>

definition ascii_lower :: "char \<Rightarrow> char" where
  "ascii_lower c = (let n = (of_char c :: nat) in if 65 \<le> n \<and> n \<le> 90 then char_of (n + 32) else c)"

definition equal_fold :: "string \<Rightarrow> string \<Rightarrow> bool" where
  "equal_fold s t \<longleftrightarrow> map ascii_lower s = map ascii_lower t"

lemma equal_fold_refl [simp]: "equal_fold s s"
  by (simp add: equal_fold_def)

section \<open>Errors\<close>

text \<open>
  The sentinel values the code compares errors with: those of nats.go (package \<open>nats\<close>), of its
  \<open>jetstream\<close> package, of \<open>context\<close>, and this module's own.
\<close>

datatype sentinel =
    NatsErrConnectionClosed
  | NatsErrConnectionDraining
  | NatsErrDisconnected
  | NatsErrNoResponders
  | NatsErrFetchDisconnected
  | NatsErrConsumerLeadershipChanged
  | NatsErrConsumerDeleted
  | NatsErrStreamNotFound
  | NatsErrTimeout
  | NatsErrMsgAlreadyAckd
  | NatsErrMsgNoReply
  | JsErrConnectionClosed
  | JsErrStreamNotFound
  | JsErrMsgAlreadyAckd
  | JsErrMsgNoReply
  | CtxCanceled
  | CtxDeadlineExceeded
  | ErrDrainTimeout
  | ErrMonitorConflict

text \<open>The JetStream API error codes the code names; every other code is \<open>OtherErrorCode\<close>.\<close>

datatype js_error_code =
    JSErrCodeBadRequest
  | JSErrCodeConsumerCreate
  | JSErrCodeConsumerNameExists
  | JSErrCodeMaximumConsumersLimit
  | JSErrCodeJetStreamNotEnabledForAccount
  | JSErrCodeJetStreamNotEnabled
  | JSErrCodeConsumerAlreadyExists
  | JSErrCodeDuplicateFilterSubjects
  | JSErrCodeOverlappingFilterSubjects
  | JSErrCodeConsumerEmptyFilter
  | JSErrCodeConsumerExists
  | OtherErrorCode nat

record api_error =
  apiCode :: int
  apiErrorCode :: js_error_code

text \<open>
  An error value. \<open>LibErr ms api msg\<close> is a value some library returned: \<open>ms\<close> are the sentinels
  \<open>errors.Is\<close> finds it equal to and \<open>api\<close> is the API error it carries, when it is a
  \<open>JetStreamError\<close> with one. Neither is interpreted further: which sentinels a library value
  matches is the library's business. \<open>NewErr\<close> is \<open>errors.New\<close> (or \<open>fmt.Errorf\<close> without \<open>%w\<close>) and
  \<open>Errorf\<close> wraps an error with \<open>%w\<close>.
\<close>

datatype goerr =
    NewErr string
  | LibErr "sentinel list" "api_error option" string
  | Errorf string goerr

abbreviation Sentinel :: "sentinel \<Rightarrow> goerr" where
  "Sentinel s \<equiv> LibErr [s] None []"

primrec errors_is :: "goerr \<Rightarrow> sentinel \<Rightarrow> bool" where
  "errors_is (NewErr m) t = False"
| "errors_is (LibErr ms a m) t = (t \<in> set ms)"
| "errors_is (Errorf m e) t = errors_is e t"

text \<open>\<open>errors.Is(err, target)\<close> on a possibly nil error.\<close>

definition opt_is :: "goerr option \<Rightarrow> sentinel \<Rightarrow> bool" where
  "opt_is e t = (case e of None \<Rightarrow> False | Some e' \<Rightarrow> errors_is e' t)"

lemma opt_is_simps [simp]: "opt_is None t = False" "opt_is (Some e) t = errors_is e t"
  by (simp_all add: opt_is_def)

text \<open>\<open>errors.As\<close> to a \<open>JetStreamError\<close> followed by its \<open>APIError()\<close>: \<open>None\<close> when the chain holds no
  such error, or when it carries no API error.\<close>

primrec as_api_error :: "goerr \<Rightarrow> api_error option" where
  "as_api_error (NewErr m) = None"
| "as_api_error (LibErr ms a m) = a"
| "as_api_error (Errorf m e) = as_api_error e"

subsection \<open>Error classes\<close>

text \<open>The interface every error predicate of the module shares: no error is never in the class, and
  wrapping an error with context never changes its class.\<close>

locale error_class =
  fixes cls :: "goerr option \<Rightarrow> bool"
  assumes not_nil: "\<not> cls None"
    and wrapped: "cls (Some (Errorf m e)) = cls (Some e)"
begin

lemma wrapped_many: "cls (Some (fold Errorf ms e)) = cls (Some e)"
  by (induction ms arbitrary: e) (simp_all add: wrapped)

lemma mapped: "cls (map_option (Errorf m) e) = cls e"
  by (cases e) (simp_all add: wrapped)

end

section \<open>Contexts\<close>

text \<open>
  A context as the code can observe it: what \<open>Err()\<close> returns, the bound \<open>WithTimeout\<close> put on it,
  and the values it carries.
\<close>

record ctx =
  ctxErr :: "goerr option"
  ctxTimeout :: "duration option"
  ctxValues :: "(string \<times> string) list"

definition background :: ctx where
  "background = \<lparr>ctxErr = None, ctxTimeout = None, ctxValues = []\<rparr>"

definition withoutCancel :: "ctx \<Rightarrow> ctx" where
  "withoutCancel c = c\<lparr>ctxErr := None, ctxTimeout := None\<rparr>"

definition withTimeout :: "ctx \<Rightarrow> duration \<Rightarrow> ctx" where
  "withTimeout c d = c\<lparr>
     ctxErr := (case ctxErr c of Some e \<Rightarrow> Some e
                | None \<Rightarrow> if d \<le> 0 then Some (Sentinel CtxDeadlineExceeded) else None),
     ctxTimeout := Some (case ctxTimeout c of None \<Rightarrow> d | Some e \<Rightarrow> min d e)\<rparr>"

definition cancelled :: "ctx \<Rightarrow> ctx" where
  "cancelled c = c\<lparr>ctxErr := (case ctxErr c of Some e \<Rightarrow> Some e | None \<Rightarrow> Some (Sentinel CtxCanceled))\<rparr>"

lemma withoutCancel_simps [simp]:
  "ctxErr (withoutCancel c) = None"
  "ctxTimeout (withoutCancel c) = None"
  "ctxValues (withoutCancel c) = ctxValues c"
  by (simp_all add: withoutCancel_def)

lemma withoutCancel_idem [simp]: "withoutCancel (withoutCancel c) = withoutCancel c"
  by (simp add: withoutCancel_def)

lemma withTimeout_values [simp]: "ctxValues (withTimeout c d) = ctxValues c"
  by (simp add: withTimeout_def)

text \<open>The bound a detached operation gets is exactly its own.\<close>

lemma detached_bound:
  "0 < d \<Longrightarrow> ctxErr (withTimeout (withoutCancel c) d) = None"
  "ctxTimeout (withTimeout (withoutCancel c) d) = Some d"
  by (simp_all add: withTimeout_def)

section \<open>Loggers\<close>

text \<open>A logger is known by identity only; \<open>DefaultLogger\<close> is \<open>slog.Default()\<close>.\<close>

datatype logger = DefaultLogger | Logger nat

datatype log_level = LevelInfo | LevelWarn | LevelError

datatype log_entry = LogEntry log_level string string

definition firstNonEmpty :: "string \<Rightarrow> string \<Rightarrow> string" where
  "firstNonEmpty a b = (if a \<noteq> [] then a else b)"

section \<open>Lists\<close>

lemma sum_list_mono2:
  "(\<And>x. x \<in> set xs \<Longrightarrow> f x \<le> (g x :: int)) \<Longrightarrow> sum_list (map f xs) \<le> sum_list (map g xs)"
  by (induction xs) (auto simp: add_mono)

lemma length_filter_less_mono:
  "length xs \<le> n \<Longrightarrow> length (filter P xs) \<le> n"
  by (rule order_trans [OF length_filter_le])

end
