(* ===== verification/JetMsg.thy ===== *)
theory JetMsg
  imports GoPrelude
begin

text \<open>
  The message interface the module drives, \<open>jetstream.Msg\<close>, and the publish surface
  \<open>natsmsg.JetStream\<close>. Both belong to nats.go: a message is a record of what its accessors return
  and of what each disposition call answers, with no assumption about either, and a publisher is a
  function of the context and the message it is handed. What the module's code does to them is a
  trace of \<open>msg_call\<close>s, in order.
\<close>

section \<open>Messages\<close>

text \<open>\<open>nats.Header\<close>: a Go map from keys to value lists. A nil header is the \<open>None\<close> of the fields that
  hold one.\<close>

type_synonym header = "string \<Rightarrow> string list option"

record msg_metadata =
  mdStreamSeq :: uint64
  mdConsumerSeq :: uint64
  mdNumDelivered :: uint64
  mdNumPending :: uint64
  mdTimestamp :: time
  mdStream :: string
  mdConsumer :: string
  mdDomain :: string

record nats_msg =
  nmSubject :: string
  nmData :: "byte list"
  nmHeader :: "header option"

record pub_ack =
  paStream :: string
  paSequence :: uint64
  paDuplicate :: bool

type_synonym publisher = "ctx \<Rightarrow> nats_msg \<Rightarrow> goerr + pub_ack"

record jmsg =
  msgSubject :: string
  msgData :: "byte list"
  msgHeaders :: "header option"
  msgMetadata :: "goerr + msg_metadata option"
  ansAck :: "goerr option"
  ansDoubleAck :: "ctx \<Rightarrow> goerr option"
  ansNak :: "goerr option"
  ansNakWithDelay :: "duration \<Rightarrow> goerr option"
  ansInProgress :: "goerr option"
  ansTerm :: "goerr option"

datatype msg_call =
    CallAck
  | CallDoubleAck ctx
  | CallNak
  | CallNakWithDelay duration
  | CallInProgress
  | CallTerm
  | CallTermWithReason string
  | CallPublish ctx nats_msg

text \<open>The \<open>err == nil && meta != nil\<close> guard every reader of the metadata has.\<close>

definition meta_of :: "jmsg \<Rightarrow> msg_metadata option" where
  "meta_of m = (case msgMetadata m of Inl e \<Rightarrow> None | Inr md \<Rightarrow> md)"

text \<open>Reading a possibly nil header map.\<close>

definition header_of :: "header option \<Rightarrow> header" where
  "header_of h = (case h of None \<Rightarrow> Map.empty | Some h' \<Rightarrow> h')"

lemma header_of_simps [simp]: "header_of None = Map.empty" "header_of (Some h) = h"
  by (simp_all add: header_of_def)

section \<open>What a trace does to the delivery\<close>

text \<open>Calls that settle the delivery at the broker or ask for its redelivery.\<close>

fun acks :: "msg_call \<Rightarrow> bool" where
  "acks CallAck = True"
| "acks (CallDoubleAck c) = True"
| "acks _ = False"

fun naks :: "msg_call \<Rightarrow> bool" where
  "naks CallNak = True"
| "naks (CallNakWithDelay d) = True"
| "naks _ = False"

fun terms :: "msg_call \<Rightarrow> bool" where
  "terms CallTerm = True"
| "terms (CallTermWithReason r) = True"
| "terms _ = False"

fun publishes :: "msg_call \<Rightarrow> bool" where
  "publishes (CallPublish c m) = True"
| "publishes _ = False"

definition disposes :: "msg_call \<Rightarrow> bool" where
  "disposes c \<longleftrightarrow> acks c \<or> naks c \<or> terms c"

lemma disposes_simps [simp, disposition_simps]:
  "disposes CallAck" "disposes (CallDoubleAck c)" "disposes CallNak"
  "disposes (CallNakWithDelay d)" "disposes CallTerm" "disposes (CallTermWithReason r)"
  "\<not> disposes CallInProgress" "\<not> disposes (CallPublish c m)"
  by (simp_all add: disposes_def)

section \<open>A plain message, for examples\<close>

definition sample_metadata :: "uint64 \<Rightarrow> uint64 \<Rightarrow> msg_metadata" where
  "sample_metadata sq n = \<lparr>mdStreamSeq = sq, mdConsumerSeq = sq, mdNumDelivered = n, mdNumPending = 0,
     mdTimestamp = 0, mdStream = ''orders'', mdConsumer = ''worker'', mdDomain = []\<rparr>"

definition sample_msg :: "uint64 \<Rightarrow> uint64 \<Rightarrow> jmsg" where
  "sample_msg sq n = \<lparr>msgSubject = ''orders.new'', msgData = [], msgHeaders = None,
     msgMetadata = Inr (Some (sample_metadata sq n)), ansAck = None, ansDoubleAck = (\<lambda>_. None),
     ansNak = None, ansNakWithDelay = (\<lambda>_. None), ansInProgress = None, ansTerm = None\<rparr>"

lemma sample_meta_of [simp]: "meta_of (sample_msg sq n) = Some (sample_metadata sq n)"
  by (simp add: meta_of_def sample_msg_def)

lemma sample_metadata_simps [simp]:
  "mdStreamSeq (sample_metadata sq n) = sq"
  "mdNumDelivered (sample_metadata sq n) = n"
  by (simp_all add: sample_metadata_def)

end
