(* ===== verification/FloorMon.thy ===== *)
theory FloorMon
  imports JetMsg
begin

text \<open>
  \<open>jsconsumer/floor.go\<close>: the ack-floor monitor. \<open>floor_monitor\<close> is the struct \<open>FloorMonitor\<close> (its
  mutex-protected fields), \<open>NewFloorMonitor\<close> its constructor, and \<open>observeFloor\<close>, \<open>FloorStall\<close>,
  \<open>Stalled\<close>, \<open>attach\<close>, \<open>pollOnce\<close>, \<open>pollFloor\<close> its operations; the clock is a parameter, one reading
  per \<open>m.clock()\<close> call. \<open>stall_of\<close> is the abstract specification: the stall a history of readings
  shows. \<open>stall_signal\<close> is the interface \<open>stallSignal\<close> through which \<open>Retry\<close> sees the monitor.
\<close>

section \<open>The stall signal interface\<close>

text \<open>
  The trigger half of the breaker. \<open>stall m t\<close> answers \<open>FloorStall()\<close> when the clock reads \<open>t\<close>,
  \<open>threshold m\<close> answers \<open>FloorAge()\<close>, and \<open>ok m\<close> is the provider's invariant.
\<close>

locale stall_signal =
  fixes stall :: "'m \<Rightarrow> time \<Rightarrow> uint64 \<times> duration \<times> bool"
    and threshold :: "'m \<Rightarrow> duration"
    and ok :: "'m \<Rightarrow> bool"
  assumes idle_age: "\<not> snd (snd (stall m t)) \<Longrightarrow> fst (snd (stall m t)) = 0"
    and age_mono: "t \<le> t' \<Longrightarrow> fst (snd (stall m t)) \<le> fst (snd (stall m t'))"
    and floor_stable: "fst (stall m t) = fst (stall m t')"
    and threshold_pos: "ok m \<Longrightarrow> 0 < threshold m"
begin

lemma tripped_is_stalled:
  "ok m \<Longrightarrow> threshold m \<le> fst (snd (stall m t)) \<Longrightarrow> snd (snd (stall m t))"
  using threshold_pos [of m] idle_age [of m t] by fastforce

lemma trip_persists:
  "threshold m \<le> fst (snd (stall m t)) \<Longrightarrow> t \<le> t' \<Longrightarrow> threshold m \<le> fst (snd (stall m t'))"
  using age_mono [of t t' m] by linarith

end

section \<open>Configuration and state\<close>

definition DefaultFloorAge :: duration where
  "DefaultFloorAge = 15 * minute"

definition minFloorPoll :: duration where
  "minFloorPoll = second"

definition maxFloorPoll :: duration where
  "maxFloorPoll = 30 * second"

definition floorPollTimeout :: duration where
  "floorPollTimeout = 5 * second"

record floor_config =
  fcFloorAge :: duration
  fcPoll :: duration
  fcName :: string
  fcLogger :: "logger option"

record floor_monitor =
  fmCfg :: floor_config
  fmCons :: "nat option"
  fmName :: string
  fmLogger :: "logger option"
  fmStalled :: bool
  fmFloor :: uint64
  fmFloorSince :: time
  fmStallLogged :: bool
  fmPolls :: int
  fmMaxPolls :: int

datatype floor_error =
    FloorAgeNegative duration
  | PollNegative duration
  | PollNotShorter duration duration

definition pollInterval :: "floor_config \<Rightarrow> duration" where
  "pollInterval cfg = (if 0 < fcPoll cfg then fcPoll cfg
     else max minFloorPoll (min (quot (fcFloorAge cfg) 10) maxFloorPoll))"

definition NewFloorMonitor :: "floor_config \<Rightarrow> floor_error + floor_monitor" where
  "NewFloorMonitor cfg0 =
     (if fcFloorAge cfg0 < 0 then Inl (FloorAgeNegative (fcFloorAge cfg0))
      else let cfg = (if fcFloorAge cfg0 = 0 then cfg0\<lparr>fcFloorAge := DefaultFloorAge\<rparr> else cfg0)
           in if fcPoll cfg < 0 then Inl (PollNegative (fcPoll cfg))
              else if fcFloorAge cfg \<le> pollInterval cfg
                then Inl (PollNotShorter (pollInterval cfg) (fcFloorAge cfg))
              else Inr \<lparr>fmCfg = cfg, fmCons = None, fmName = [], fmLogger = None, fmStalled = False,
                        fmFloor = 0, fmFloorSince = 0, fmStallLogged = False, fmPolls = 0, fmMaxPolls = 0\<rparr>)"

definition FloorAge :: "floor_monitor \<Rightarrow> duration" where
  "FloorAge m = fcFloorAge (fmCfg m)"

definition FloorStall :: "floor_monitor \<Rightarrow> time \<Rightarrow> uint64 \<times> duration \<times> bool" where
  "FloorStall m now =
     (if \<not> fmStalled m then (fmFloor m, 0, False)
      else (fmFloor m, time_sub now (fmFloorSince m), True))"

definition Stalled :: "floor_monitor \<Rightarrow> time \<Rightarrow> bool" where
  "Stalled m now = (case FloorStall m now of (_, age, st) \<Rightarrow> st \<and> fcFloorAge (fmCfg m) \<le> age)"

definition observeFloor :: "uint64 \<Rightarrow> uint64 \<Rightarrow> time \<Rightarrow> floor_monitor \<Rightarrow> floor_monitor" where
  "observeFloor floor delivered at m =
     (let caughtUp = delivered \<le> floor;
          sameStall = fmStalled m \<and> fmFloor m = floor;
          m1 = m\<lparr>fmFloor := floor\<rparr>
      in if caughtUp then m1\<lparr>fmStalled := False, fmStallLogged := False\<rparr>
         else if sameStall then m1
         else m1\<lparr>fmStalled := True, fmFloorSince := at, fmStallLogged := False\<rparr>)"

definition floor_attach :: "nat \<Rightarrow> string \<Rightarrow> logger option \<Rightarrow> floor_monitor \<Rightarrow> floor_monitor" where
  "floor_attach cons name lg m =
     m\<lparr>fmCons := Some cons,
       fmName := firstNonEmpty (fcName (fmCfg m)) name,
       fmLogger := (if fcLogger (fmCfg m) \<noteq> None then fcLogger (fmCfg m) else lg)\<rparr>"

definition floor_log :: "floor_monitor \<Rightarrow> logger \<times> string" where
  "floor_log m =
     (case fmLogger m of
        Some l \<Rightarrow> l
      | None \<Rightarrow> (case fcLogger (fmCfg m) of Some l \<Rightarrow> l | None \<Rightarrow> DefaultLogger),
      if fmName m = [] then firstNonEmpty (fcName (fmCfg m)) ''jsconsumer'' else fmName m)"

section \<open>Polling\<close>

text \<open>What one consumer-info request returns of the consumer: the ack floor's and the last delivery's
  stream sequence.\<close>

record consumer_info =
  ciAckFloor :: uint64
  ciDelivered :: uint64
  ciNumAckPending :: int

text \<open>One sample: the context it runs on, what \<open>Info\<close> answers for a context (an error or the info),
  whether that context is done once \<open>Info\<close> has returned, and the two clock readings.\<close>

record floor_sample =
  fsCtx :: ctx
  fsInfo :: "ctx \<Rightarrow> goerr + consumer_info"
  fsDoneAfter :: bool
  fsObservedAt :: time
  fsJudgedAt :: time

definition pollOnce :: "floor_sample \<Rightarrow> floor_monitor \<Rightarrow> floor_monitor \<times> log_entry list" where
  "pollOnce smp m =
     (if fmCons m = None then (m, [])
      else case fsInfo smp (withTimeout (fsCtx smp) floorPollTimeout) of
        Inl e \<Rightarrow>
          (if fsDoneAfter smp then (m, [])
           else (m, [LogEntry LevelWarn (snd (floor_log m)) ''ack floor poll failed'']))
      | Inr info \<Rightarrow>
          (let m1 = observeFloor (ciAckFloor info) (ciDelivered info) (fsObservedAt smp) m;
               (floor, age, st) = FloorStall m1 (fsJudgedAt smp)
           in if \<not> st \<or> age < fcFloorAge (fmCfg m1) then (m1, [])
              else if fmStallLogged m1 then (m1, [])
              else (m1\<lparr>fmStallLogged := True\<rparr>,
                    [LogEntry LevelWarn (snd (floor_log m1)) ''ack floor stalled past FloorAge''])))"

fun poll_all :: "floor_sample list \<Rightarrow> floor_monitor \<Rightarrow> floor_monitor \<times> log_entry list" where
  "poll_all [] m = (m, [])"
| "poll_all (smp # smps) m =
     (let (m1, l1) = pollOnce smp m; (m2, l2) = poll_all smps m1 in (m2, l1 @ l2))"

text \<open>\<open>pollFloor\<close>: one sample at once, then one per tick until the context is done; \<open>ticks\<close> are the
  samples it gets to take before that.\<close>

definition pollFloor ::
  "floor_sample \<Rightarrow> floor_sample list \<Rightarrow> floor_monitor \<Rightarrow> floor_monitor \<times> log_entry list" where
  "pollFloor first ticks m =
     (let m1 = m\<lparr>fmPolls := fmPolls m + 1, fmMaxPolls := max (fmMaxPolls m) (fmPolls m + 1)\<rparr>;
          (m2, logs) = poll_all (first # ticks) m1
      in (m2\<lparr>fmPolls := fmPolls m2 - 1\<rparr>, logs))"

section \<open>What the constructor establishes\<close>

lemma quot_10: "0 \<le> a \<Longrightarrow> quot a 10 = a div 10"
  by (simp add: quot_nonneg)

lemma pollInterval_pos: "0 < pollInterval cfg"
  by (simp add: pollInterval_def minFloorPoll_def second_def less_max_iff_disj)

text \<open>The monitor's own invariant: its poll interval is positive and shorter than its threshold.\<close>

definition monitor_ok :: "floor_monitor \<Rightarrow> bool" where
  "monitor_ok m \<longleftrightarrow> 0 < pollInterval (fmCfg m) \<and> pollInterval (fmCfg m) < FloorAge m"

lemma monitor_ok_floorage: "monitor_ok m \<Longrightarrow> 0 < FloorAge m"
  by (simp add: monitor_ok_def)

text \<open>
  \<open>NewFloorMonitor\<close> accepts exactly the configurations whose \<open>FloorAge\<close> and \<open>Poll\<close> are not
  negative and whose effective poll interval is shorter than the effective threshold (zero being the
  default of fifteen minutes); the monitor it returns carries that threshold, reports no stall, and
  satisfies its invariant.
\<close>

theorem NewFloorMonitor_accepts:
  "(\<exists>m. NewFloorMonitor cfg = Inr m)
     = (0 \<le> fcFloorAge cfg \<and> 0 \<le> fcPoll cfg \<and>
        pollInterval (cfg\<lparr>fcFloorAge := (if fcFloorAge cfg = 0 then DefaultFloorAge else fcFloorAge cfg)\<rparr>)
          < (if fcFloorAge cfg = 0 then DefaultFloorAge else fcFloorAge cfg))
   \<and> (case NewFloorMonitor cfg of
        Inl e \<Rightarrow> True
      | Inr m \<Rightarrow> monitor_ok m \<and> \<not> fmStalled m \<and> \<not> Stalled m now
               \<and> FloorAge m = (if fcFloorAge cfg = 0 then DefaultFloorAge else fcFloorAge cfg))"
  by (simp add: NewFloorMonitor_def Let_def monitor_ok_def FloorAge_def pollInterval_pos
        Stalled_def FloorStall_def not_le not_less linorder_not_le split: if_splits)

section \<open>The stall a history shows\<close>

text \<open>
  A reading is what one successful sample observes: the ack floor, the last delivered sequence and
  the time. A reading is \<open>blocked_at f\<close> when work is outstanding above the floor \<open>f\<close>. The stall a
  history shows is the longest final run of readings blocked at the floor last read, dated by the
  first reading of that run.
\<close>

type_synonym reading = "uint64 \<times> uint64 \<times> time"

definition blocked_at :: "uint64 \<Rightarrow> reading \<Rightarrow> bool" where
  "blocked_at f r = (case r of (floor, delivered, at) \<Rightarrow> floor = f \<and> floor < delivered)"

definition stall_run :: "reading list \<Rightarrow> reading list" where
  "stall_run rs = (if rs = [] then [] else takeWhile (blocked_at (fst (last rs))) (rev rs))"

definition stall_of :: "reading list \<Rightarrow> (uint64 \<times> time) option" where
  "stall_of rs = (if stall_run rs = [] then None
     else Some (fst (last rs), snd (snd (last (stall_run rs)))))"

definition observe_all :: "reading list \<Rightarrow> floor_monitor \<Rightarrow> floor_monitor" where
  "observe_all rs m = fold (\<lambda>(floor, delivered, at). observeFloor floor delivered at) rs m"

lemma observe_all_snoc [simp]:
  "observe_all (rs @ [(floor, delivered, at)]) m = observeFloor floor delivered at (observe_all rs m)"
  by (simp add: observe_all_def)

lemma observe_all_Nil [simp]: "observe_all [] m = m"
  by (simp add: observe_all_def)

lemma observeFloor_simps [simp]:
  "fmFloor (observeFloor f d t m) = f"
  "fmStalled (observeFloor f d t m) = (f < d)"
  "fmCfg (observeFloor f d t m) = fmCfg m"
  "fmName (observeFloor f d t m) = fmName m"
  "fmLogger (observeFloor f d t m) = fmLogger m"
  "fmCons (observeFloor f d t m) = fmCons m"
  by (auto simp: observeFloor_def Let_def)

lemma observeFloor_since:
  "f < d \<Longrightarrow> fmFloorSince (observeFloor f d t m) =
     (if fmStalled m \<and> fmFloor m = f then fmFloorSince m else t)"
  by (auto simp: observeFloor_def Let_def)

lemma stall_run_snoc:
  "stall_run (rs @ [(f, d, t)]) =
     (if f < d then (f, d, t) # takeWhile (blocked_at f) (rev rs) else [])"
  by (simp add: stall_run_def blocked_at_def)

lemma takeWhile_other_floor:
  "rs \<noteq> [] \<Longrightarrow> fst (last rs) \<noteq> f \<Longrightarrow> takeWhile (blocked_at f) (rev rs) = []"
  by (cases rs rule: rev_cases) (auto simp: blocked_at_def)

lemma observe_all_history:
  assumes "\<not> fmStalled m"
  shows "fmCfg (observe_all rs m) = fmCfg m
       \<and> fmFloor (observe_all rs m) = (if rs = [] then fmFloor m else fst (last rs))
       \<and> (fmStalled (observe_all rs m) \<longleftrightarrow> stall_of rs \<noteq> None)
       \<and> (\<forall>f t. stall_of rs = Some (f, t) \<longrightarrow> fmFloorSince (observe_all rs m) = t)"
proof (induction rs rule: rev_induct)
  case Nil
  then show ?case using assms by (simp add: stall_of_def stall_run_def)
next
  case (snoc r rs)
  obtain f d t where r: "r = (f, d, t)" by (cases r)
  show ?case
  proof (cases "fmStalled (observe_all rs m) \<and> fmFloor (observe_all rs m) = f")
    case True
    with snoc assms have rs: "rs \<noteq> []" "fst (last rs) = f" "stall_of rs \<noteq> None"
      by (auto split: if_splits)
    then have "takeWhile (blocked_at f) (rev rs) = stall_run rs" "stall_run rs \<noteq> []"
      by (auto simp: stall_run_def stall_of_def split: if_splits)
    with True snoc rs show ?thesis
      by (auto simp: r stall_of_def stall_run_snoc observeFloor_since)
  next
    case False
    have "takeWhile (blocked_at f) (rev rs) = []"
    proof (cases "rs = [] \<or> fst (last rs) \<noteq> f")
      case True
      then show ?thesis using takeWhile_other_floor by (cases "rs = []") auto
    next
      case same: False
      with False snoc have "stall_of rs = None" by (cases "stall_of rs") auto
      with same show ?thesis by (simp add: stall_of_def stall_run_def split: if_splits)
    qed
    with False snoc show ?thesis
      by (auto simp: r stall_of_def stall_run_snoc observeFloor_since)
  qed
qed

text \<open>
  C10. \<open>observeFloor\<close> keeps in three fields exactly what the whole history of readings says: after any
  readings of a monitor that starts unstalled, \<open>FloorStall\<close> answers with the floor last read and the
  stall \<open>stall_of\<close> finds, its age counted from the first reading of the final blocked run.
\<close>

theorem FloorStall_refines_history:
  assumes "\<not> fmStalled m"
  shows "FloorStall (observe_all rs m) now =
     (case stall_of rs of
        None \<Rightarrow> (if rs = [] then fmFloor m else fst (last rs), 0, False)
      | Some (f, since) \<Rightarrow> (f, time_sub now since, True))"
  using observe_all_history [OF assms, of rs]
  by (cases "rs = []") (auto simp: FloorStall_def stall_of_def stall_run_def split: if_splits)

definition demo_monitor :: floor_monitor where
  "demo_monitor = (case NewFloorMonitor \<lparr>fcFloorAge = 60 * second, fcPoll = 0, fcName = ''c'', fcLogger = None\<rparr>
     of Inr m \<Rightarrow> m | Inl e \<Rightarrow> undefined)"

lemma demo_monitor_value:
  "demo_monitor = \<lparr>fmCfg = \<lparr>fcFloorAge = 60000000000, fcPoll = 0, fcName = ''c'', fcLogger = None\<rparr>,
     fmCons = None, fmName = [], fmLogger = None, fmStalled = False, fmFloor = 0, fmFloorSince = 0,
     fmStallLogged = False, fmPolls = 0, fmMaxPolls = 0\<rparr>"
  by (simp add: demo_monitor_def NewFloorMonitor_def Let_def pollInterval_def quot_nonneg
        minFloorPoll_def maxFloorPoll_def duration_units)

theorem FloorStall_refines_history_witness:
  "FloorStall (observe_all [(3, 9, 10), (7, 9, 20), (7, 12, 30)] demo_monitor) 50 = (7, 30, True)"
  by (subst FloorStall_refines_history)
    (simp_all add: demo_monitor_value stall_of_def stall_run_def blocked_at_def time_sub_def maxInt64_def minInt64_def)

text \<open>
  Late, never early: when \<open>Stalled\<close> answers true, some reading at least \<open>FloorAge\<close> old, and every
  reading since, showed the very floor the monitor holds with work outstanding above it.
\<close>

theorem Stalled_never_early:
  assumes "\<not> fmStalled m" and "0 < FloorAge m" and "FloorAge m < 2 ^ 63"
    and "Stalled (observe_all rs m) now"
  shows "\<exists>before r since. rs = before @ r # since \<and> snd (snd r) + FloorAge m \<le> now
           \<and> list_all (blocked_at (fmFloor (observe_all rs m))) (r # since)"
proof -
  let ?f = "fst (last rs)"
  note h = observe_all_history [OF assms(1), of rs]
  from assms(4) h have "stall_of rs \<noteq> None" and age: "FloorAge m \<le> time_sub now (fmFloorSince (observe_all rs m))"
    by (auto simp: Stalled_def FloorStall_def FloorAge_def split: if_splits)
  then have ne: "stall_run rs \<noteq> []" and rs: "rs \<noteq> []"
    by (auto simp: stall_of_def stall_run_def split: if_splits)
  define r where "r = last (stall_run rs)"
  from ne obtain run where run: "stall_run rs = run @ [r]"
    by (metis append_butlast_last_id r_def)
  have "rev rs = stall_run rs @ dropWhile (blocked_at ?f) (rev rs)"
    using rs by (simp add: stall_run_def)
  then have "rs = rev (stall_run rs @ dropWhile (blocked_at ?f) (rev rs))"
    by (simp only: rev_swap)
  then have split: "rs = rev (dropWhile (blocked_at ?f) (rev rs)) @ r # rev run"
    by (simp add: run)
  have "set (stall_run rs) \<subseteq> Collect (blocked_at ?f)"
    using rs by (auto simp: stall_run_def dest: set_takeWhileD)
  then have all: "list_all (blocked_at (fmFloor (observe_all rs m))) (r # rev run)"
    using h rs by (auto simp: list_all_iff run)
  have "fmFloorSince (observe_all rs m) = snd (snd r)"
    using h ne by (simp add: stall_of_def r_def)
  with age assms(2,3) have "snd (snd r) + FloorAge m \<le> now"
    by (simp add: time_sub_def maxInt64_def minInt64_def)
  with split all show ?thesis by blast
qed

theorem Stalled_never_early_witness:
  "\<exists>before r since. [(3, 9, 10), (7, 9, 20), (7, 12, 30)] = before @ r # since
       \<and> snd (snd r) + FloorAge demo_monitor \<le> 70000000000
       \<and> list_all (blocked_at (fmFloor (observe_all [(3, 9, 10), (7, 9, 20), (7, 12, 30)] demo_monitor))) (r # since)"
  by (rule Stalled_never_early)
    (simp_all add: demo_monitor_value Stalled_def FloorStall_def FloorAge_def observe_all_def
      observeFloor_def time_sub_def maxInt64_def minInt64_def)

section \<open>One warning per stall\<close>

definition is_stall_warning :: "log_entry \<Rightarrow> bool" where
  "is_stall_warning e = (case e of LogEntry lv nm msg \<Rightarrow> msg = ''ack floor stalled past FloorAge'')"

text \<open>A sample that continues a stall at \<open>f\<close>: its request fails, or it shows work outstanding above
  an unmoved floor.\<close>

definition continues_stall :: "uint64 \<Rightarrow> floor_sample \<Rightarrow> bool" where
  "continues_stall f smp = (case fsInfo smp (withTimeout (fsCtx smp) floorPollTimeout) of
     Inl e \<Rightarrow> True | Inr info \<Rightarrow> ciAckFloor info = f \<and> f < ciDelivered info)"

definition warned :: "uint64 \<Rightarrow> floor_monitor \<Rightarrow> bool" where
  "warned f m \<longleftrightarrow> fmStalled m \<and> fmFloor m = f \<and> fmStallLogged m"

lemma observeFloor_logged [simp]:
  "fmStallLogged (observeFloor f d t m) =
     (f < d \<and> fmStalled m \<and> fmFloor m = f \<and> fmStallLogged m)"
  by (auto simp: observeFloor_def Let_def)

lemma pollOnce_continues:
  assumes "continues_stall f smp" and "pollOnce smp m = (m', logs)"
  shows "length (filter is_stall_warning logs) \<le> (if warned f m then 0 else 1)"
    and "warned f m \<Longrightarrow> warned f m'"
    and "filter is_stall_warning logs \<noteq> [] \<Longrightarrow> warned f m'"
  using assms
  by (auto simp: pollOnce_def continues_stall_def is_stall_warning_def warned_def Let_def
        FloorStall_def split: if_splits sum.splits)

text \<open>
  One warning per stall: over any run of samples that continue one stall, however long it lasts
  and whichever requests fail, the monitor logs its stall warning at most once, and not at all when it
  had already warned of that stall.
\<close>

theorem one_warning_per_stall:
  assumes "list_all (continues_stall f) smps"
  shows "length (filter is_stall_warning (snd (poll_all smps m))) \<le> (if warned f m then 0 else 1)"
  using assms
proof (induction smps arbitrary: m)
  case Nil
  then show ?case by simp
next
  case (Cons smp smps)
  obtain m1 l1 where p: "pollOnce smp m = (m1, l1)" by (cases "pollOnce smp m")
  obtain m2 l2 where q: "poll_all smps m1 = (m2, l2)" by (cases "poll_all smps m1")
  note step = pollOnce_continues [OF _ p, of f]
  from Cons have "length (filter is_stall_warning l2) \<le> (if warned f m1 then 0 else 1)"
    by (metis list.pred_inject(2) q snd_conv)
  moreover have "continues_stall f smp" using Cons.prems by simp
  ultimately show ?case
    using step by (cases "filter is_stall_warning l1 = []") (auto simp: p q split: if_splits)
qed

text \<open>A sample for evaluation: floor 3, deliveries up to 9, observed and judged at the given times.\<close>

definition demo_sample :: "time \<Rightarrow> floor_sample" where
  "demo_sample t = \<lparr>fsCtx = background, fsInfo = (\<lambda>_. Inr \<lparr>ciAckFloor = 3, ciDelivered = 9, ciNumAckPending = 1\<rparr>),
     fsDoneAfter = False, fsObservedAt = t, fsJudgedAt = t\<rparr>"

theorem one_warning_per_stall_witness:
  "length (filter is_stall_warning (snd (poll_all (map demo_sample [0, 60000000000, 120000000000])
     (floor_attach 0 ''host'' None demo_monitor)))) \<le> 1
   \<and> snd (poll_all (map demo_sample [0, 60000000000, 120000000000]) (floor_attach 0 ''host'' None demo_monitor))
       = [LogEntry LevelWarn ''c'' ''ack floor stalled past FloorAge'']"
  using one_warning_per_stall [of 3 "map demo_sample [0, 60000000000, 120000000000]"
      "floor_attach 0 ''host'' None demo_monitor"]
  by (simp add: continues_stall_def demo_sample_def warned_def demo_monitor_value floor_attach_def
      pollOnce_def observeFloor_def FloorStall_def floor_log_def firstNonEmpty_def Let_def
      time_sub_def maxInt64_def minInt64_def background_def)

text \<open>
  Never missed either: when the readings come in time order and some reading at least \<open>FloorAge\<close>
  old and every one since show one floor with work outstanding above it, \<open>Stalled\<close> answers true.
\<close>

theorem Stalled_never_missed:
  assumes "\<not> fmStalled m" and "FloorAge m < 2 ^ 63" and "sorted (map (snd \<circ> snd) (before @ r # since))"
    and "snd (snd r) + FloorAge m \<le> now" and "list_all (blocked_at f) (r # since)"
  shows "Stalled (observe_all (before @ r # since) m) now"
proof -
  let ?rs = "before @ r # since"
  let ?run = "takeWhile (blocked_at f) (rev before)"
  have f: "fst (last ?rs) = f"
    using assms(5) by (cases since rule: rev_cases) (auto simp: blocked_at_def)
  have run: "stall_run ?rs = rev since @ r # ?run"
    using assms(5) f by (simp add: stall_run_def list_all_iff takeWhile_append)
  obtain at where "stall_of ?rs = Some (f, at)" and at: "at = snd (snd (last (r # ?run)))"
    using f by (simp add: stall_of_def run)
  moreover have "at \<le> snd (snd r)"
  proof (cases "?run = []")
    case False
    then have "last ?run \<in> set before" by (metis last_in_set set_rev set_takeWhileD)
    then show ?thesis using assms(3) False at by (auto simp: sorted_append)
  qed (simp add: at)
  ultimately show ?thesis
    using observe_all_history [OF assms(1), of ?rs] assms(2,4)
    by (simp add: Stalled_def FloorStall_def FloorAge_def time_sub_def maxInt64_def minInt64_def)
qed

theorem Stalled_never_missed_witness:
  "Stalled (observe_all ([(3, 9, 10)] @ (7, 9, 20) # [(7, 12, 30)]) demo_monitor) 70000000000"
  by (rule Stalled_never_missed [where f = 7])
    (simp_all add: demo_monitor_value FloorAge_def blocked_at_def)

section \<open>The monitor provides the stall signal\<close>

interpretation floor_signal: stall_signal FloorStall FloorAge monitor_ok
  by unfold_locales (auto simp: FloorStall_def time_sub_mono time_sub_nonneg monitor_ok_floorage split: if_splits)

end
