(* ===== verification/Float64.thy ===== *)
theory Float64
  imports GoPrelude "HOL-Library.Log_Nat" Complex_Main
begin

text \<open>
  Go's \<open>float64\<close> as far as \<open>backoff.Policy.DelayFor\<close> uses it: conversion from and to
  \<open>int64\<close>, multiplication with round-to-nearest-even on a 53-bit significand, comparison, and
  \<open>math.Pow\<close> with an integral exponent (the square-and-multiply loop of the standard library).
  The two zeros are one value and there are no subnormal results: the values the code computes
  are 0, or at least 1, or an intermediate significand no smaller than \<open>2 ^ -65\<close>.
\<close>

section \<open>Rounding\<close>

definition rne :: "rat \<Rightarrow> int" where
  "rne y = (let n = \<lfloor>y\<rfloor>; f = y - of_int n in
     if f < 1 / 2 then n else if 1 / 2 < f then n + 1 else if even n then n else n + 1)"

definition binade :: "rat \<Rightarrow> int" where
  "binade x = (let p = fst (quotient_of x); q = snd (quotient_of x);
                   k = bitlen p - bitlen q
               in if 2 powi k \<le> x then k else k - 1)"

definition rnd_pos :: "rat \<Rightarrow> rat" where
  "rnd_pos x = (let e = binade x - 52 in of_int (rne (x / 2 powi e)) * 2 powi e)"

definition rnd :: "rat \<Rightarrow> rat" where
  "rnd x = (if x = 0 then 0 else if 0 < x then rnd_pos x else - rnd_pos (- x))"

lemma rne_int [simp]: "rne (of_int n) = n"
  by (simp add: rne_def)

lemma rne_bounds: "\<lfloor>y\<rfloor> \<le> rne y" "rne y \<le> \<lfloor>y\<rfloor> + 1"
  by (auto simp: rne_def Let_def)

lemma rne_mono: "y \<le> z \<Longrightarrow> rne y \<le> rne z"
proof (cases "\<lfloor>y\<rfloor> = \<lfloor>z\<rfloor>")
  case True
  moreover assume "y \<le> z"
  ultimately show ?thesis by (auto simp: rne_def Let_def)
next
  case False
  moreover assume "y \<le> z"
  then have "\<lfloor>y\<rfloor> \<le> \<lfloor>z\<rfloor>" by (rule floor_mono)
  ultimately have "\<lfloor>y\<rfloor> + 1 \<le> \<lfloor>z\<rfloor>" by simp
  then show ?thesis using rne_bounds(2) [of y] rne_bounds(1) [of z] by linarith
qed

lemma powi_mono2: "(a :: int) \<le> b \<Longrightarrow> (2 :: rat) powi a \<le> 2 powi b"
  by (rule power_int_increasing) simp_all

lemma powi_less2: "(2 :: rat) powi a < 2 powi b \<longleftrightarrow> (a :: int) < b"
proof
  assume "(2 :: rat) powi a < 2 powi b"
  then show "a < b" using powi_mono2 [of b a] by (meson not_le)
next
  assume "a < b"
  then show "(2 :: rat) powi a < 2 powi b" by (rule power_int_strict_increasing) simp
qed

lemma powi_pos2 [simp]: "0 < (2 :: rat) powi a"
  by simp

lemma powi_split2: "(2 :: rat) powi (a + b) = 2 powi a * 2 powi b"
  by (simp add: power_int_add)

lemma floorlog_bounds_int:
  assumes "0 < (p :: int)"
  shows "(2 :: rat) powi (int (floorlog 2 (nat p)) - 1) \<le> of_int p"
    and "(of_int p :: rat) < 2 powi (int (floorlog 2 (nat p)))"
proof -
  let ?L = "floorlog 2 (nat p)"
  have b: "2 ^ (?L - 1) \<le> nat p" "nat p < 2 ^ ?L"
    using floorlog_bounds [of "nat p" 2] assms by simp_all
  have L: "0 < ?L" using b(2) assms by (cases ?L) auto
  have ip: "rat_of_nat (nat p) = of_int p" using assms by (simp add: of_nat_nat)
  have "rat_of_nat (2 ^ (?L - 1)) \<le> rat_of_nat (nat p)"
    using b(1) by (simp only: of_nat_le_iff)
  then have "(2 :: rat) ^ (?L - 1) \<le> of_int p"
    by (simp only: ip of_nat_power of_nat_numeral)
  moreover have "(2 :: rat) powi (int ?L - 1) = 2 ^ (?L - 1)"
    using L by (simp add: power_int_def nat_diff_distrib)
  ultimately show "(2 :: rat) powi (int ?L - 1) \<le> of_int p" by simp
  have "rat_of_nat (nat p) < rat_of_nat (2 ^ ?L)"
    using b(2) by (simp only: of_nat_less_iff)
  then have "(of_int p :: rat) < 2 ^ ?L"
    by (simp only: ip of_nat_power of_nat_numeral)
  then show "(of_int p :: rat) < 2 powi (int ?L)" by (simp add: power_int_def)
qed

lemma binade_bounds:
  assumes "0 < x"
  shows "2 powi (binade x) \<le> x" "x < 2 powi (binade x + 1)"
proof -
  obtain p q where pq: "quotient_of x = (p, q)" by (cases "quotient_of x")
  have q: "0 < q" and x: "x = of_int p / of_int q"
    using quotient_of_denom_pos [OF pq] quotient_of_div [OF pq] by auto
  with assms have p: "0 < p" by (simp add: zero_less_divide_iff)
  define lp lq where "lp = int (floorlog 2 (nat p))" and "lq = int (floorlog 2 (nat q))"
  have P: "2 powi (lp - 1) \<le> (of_int p :: rat)" "(of_int p :: rat) < 2 powi lp"
    using floorlog_bounds_int [OF p] by (simp_all add: lp_def)
  have Q: "2 powi (lq - 1) \<le> (of_int q :: rat)" "(of_int q :: rat) < 2 powi lq"
    using floorlog_bounds_int [OF q] by (simp_all add: lq_def)
  have q': "0 < (of_int q :: rat)" using q by simp
  have up: "x < 2 powi (lp - lq + 1)"
  proof -
    have "2 powi (lp - lq + 1) * of_int q \<ge> (2 :: rat) powi (lp - lq + 1) * 2 powi (lq - 1)"
      using Q(1) by (simp add: mult_left_mono)
    also have "(2 :: rat) powi (lp - lq + 1) * 2 powi (lq - 1) = 2 powi lp"
      by (simp flip: powi_split2)
    finally show ?thesis using P(2) q' by (simp add: x divide_less_eq)
  qed
  have lo: "2 powi (lp - lq - 1) \<le> x"
  proof -
    have "2 powi (lp - lq - 1) * of_int q \<le> (2 :: rat) powi (lp - lq - 1) * 2 powi lq"
      using Q(2) by (simp add: mult_left_mono)
    also have "\<dots> = 2 powi (lp - 1)" by (simp flip: powi_split2)
    also have "\<dots> \<le> of_int p" by (rule P(1))
    finally show ?thesis using q' by (simp add: x le_divide_eq)
  qed
  have b: "binade x = (if 2 powi (lp - lq) \<le> x then lp - lq else lp - lq - 1)"
    by (simp add: binade_def pq lp_def lq_def bitlen_def)
  show "2 powi (binade x) \<le> x" using lo by (simp add: b)
  show "x < 2 powi (binade x + 1)" using up by (auto simp: b)
qed

lemma binade_unique:
  assumes "0 < x" "2 powi k \<le> x" "x < 2 powi (k + 1)"
  shows "binade x = k"
proof -
  have "(2 :: rat) powi binade x < 2 powi (k + 1)" "(2 :: rat) powi k < 2 powi (binade x + 1)"
    using binade_bounds [OF assms(1)] assms(2,3) by linarith+
  then show ?thesis by (simp add: powi_less2)
qed

lemma binade_mono: "0 < x \<Longrightarrow> x \<le> y \<Longrightarrow> binade x \<le> binade y"
proof -
  assume "0 < x" "x \<le> y"
  then have "(2 :: rat) powi binade x < 2 powi (binade y + 1)"
    using binade_bounds(1) [of x] binade_bounds(2) [of y] by linarith
  then show ?thesis by (simp add: powi_less2)
qed

lemma scaled_bounds:
  assumes "0 < x"
  shows "2 ^ 52 \<le> x / 2 powi (binade x - 52)" "x / 2 powi (binade x - 52) < 2 ^ 53"
proof -
  have "(2 :: rat) powi binade x = 2 ^ 52 * 2 powi (binade x - 52)"
    using powi_split2 [of 52 "binade x - 52"] by simp
  then show "2 ^ 52 \<le> x / 2 powi (binade x - 52)"
    using binade_bounds(1) [OF assms] by (simp add: le_divide_eq)
  have "(2 :: rat) powi (binade x + 1) = 2 ^ 53 * 2 powi (binade x - 52)"
    using powi_split2 [of 53 "binade x - 52"] by (simp add: add.commute)
  then show "x / 2 powi (binade x - 52) < 2 ^ 53"
    using binade_bounds(2) [OF assms] by (simp add: divide_less_eq)
qed

lemma significand_bounds:
  assumes "0 < x"
  shows "2 ^ 52 \<le> rne (x / 2 powi (binade x - 52))" "rne (x / 2 powi (binade x - 52)) \<le> 2 ^ 53"
proof -
  let ?y = "x / 2 powi (binade x - 52)"
  have "rne (of_int (2 ^ 52)) \<le> rne ?y" "rne ?y \<le> rne (of_int (2 ^ 53))"
    using scaled_bounds [OF assms] by (auto intro!: rne_mono)
  then show "2 ^ 52 \<le> rne ?y" "rne ?y \<le> 2 ^ 53" by (simp_all only: rne_int)
qed

lemma rnd_pos_range:
  assumes "0 < x"
  shows "2 powi binade x \<le> rnd_pos x" "rnd_pos x \<le> 2 powi (binade x + 1)"
proof -
  let ?e = "binade x - 52"
  let ?k = "rne (x / 2 powi ?e)"
  have k: "(2 ^ 52 :: rat) \<le> of_int ?k" "of_int ?k \<le> (2 ^ 53 :: rat)"
    using significand_bounds [OF assms] by simp_all
  have r: "rnd_pos x = of_int ?k * 2 powi ?e" by (simp add: rnd_pos_def Let_def)
  have "(2 :: rat) powi binade x = 2 ^ 52 * 2 powi ?e"
    using powi_split2 [of 52 ?e] by simp
  then show "2 powi binade x \<le> rnd_pos x" using k(1) by (simp add: r mult_right_mono)
  have "(2 :: rat) powi (binade x + 1) = 2 ^ 53 * 2 powi ?e"
    using powi_split2 [of 53 ?e] by (simp add: add.commute)
  then show "rnd_pos x \<le> 2 powi (binade x + 1)" using k(2) by (simp add: r mult_right_mono)
qed

lemma rnd_pos_gt0: "0 < x \<Longrightarrow> 0 < rnd_pos x"
  using rnd_pos_range(1) [of x] powi_pos2 [of "binade x"] by linarith

lemma rnd_pos_mono:
  assumes "0 < x" "x \<le> y"
  shows "rnd_pos x \<le> rnd_pos y"
proof (cases "binade x = binade y")
  case True
  have "rne (x / 2 powi (binade y - 52)) \<le> rne (y / 2 powi (binade y - 52))"
    using assms by (auto intro!: rne_mono divide_right_mono)
  then show ?thesis by (simp add: rnd_pos_def Let_def True mult_right_mono)
next
  case False
  then have "binade x + 1 \<le> binade y" using binade_mono [OF assms] by simp
  then have "(2 :: rat) powi (binade x + 1) \<le> 2 powi binade y" by (rule powi_mono2)
  then show ?thesis
    using rnd_pos_range(2) [OF assms(1)] rnd_pos_range(1) [of y] assms by linarith
qed

text \<open>Every number with a 53-bit significand is a fixed point of the rounding.\<close>

lemma rnd_pos_exact:
  assumes "0 < k" "k \<le> 2 ^ 53"
  shows "rnd_pos (of_int k * 2 powi e) = of_int k * 2 powi e"
proof -
  let ?x = "of_int k * 2 powi e :: rat"
  have x: "0 < ?x" using assms(1) by simp
  have "?x \<le> 2 ^ 53 * 2 powi e"
    using assms(2) by (simp add: mult_right_mono)
  also have "\<dots> = 2 powi (e + 53)"
    using powi_split2 [of 53 e] by (simp add: add.commute)
  finally have le: "?x \<le> 2 powi (e + 53)" .
  have int_scaled: "rnd_pos ?x = ?x" if "?x = of_int n * 2 powi (binade ?x - 52)" for n
  proof -
    have "?x / 2 powi (binade ?x - 52) = of_int n" by (subst that) simp
    then show ?thesis by (simp only: rnd_pos_def Let_def rne_int that [symmetric])
  qed
  show ?thesis
  proof (cases "binade ?x - 52 \<le> e")
    case True
    then have "(2 :: rat) powi e = 2 ^ nat (e - (binade ?x - 52)) * 2 powi (binade ?x - 52)"
      using powi_split2 [of "e - (binade ?x - 52)" "binade ?x - 52"]
      by (simp add: power_int_def)
    then show ?thesis
      by (intro int_scaled [of "k * 2 ^ nat (e - (binade ?x - 52))"]) simp
  next
    case False
    have "(2 :: rat) powi binade ?x \<le> 2 powi (e + 53)"
      using binade_bounds(1) [OF x] le by linarith
    then have "\<not> e + 53 < binade ?x" using powi_less2 [of "e + 53" "binade ?x"] by linarith
    with False have b: "binade ?x = e + 53" by simp
    then have "?x = 2 powi (e + 53)" using binade_bounds(1) [OF x] le by simp
    also have "\<dots> = of_int (2 ^ 52) * 2 powi (binade ?x - 52)"
      using powi_split2 [of 52 "e + 1"] by (simp add: b add.commute)
    finally show ?thesis by (rule int_scaled)
  qed
qed

lemma rnd_pos_idem: "0 < x \<Longrightarrow> rnd_pos (rnd_pos x) = rnd_pos x"
proof -
  assume x: "0 < x"
  have "0 < rne (x / 2 powi (binade x - 52))" using significand_bounds(1) [OF x] by simp
  then show ?thesis
    using rnd_pos_exact [OF _ significand_bounds(2) [OF x], of "binade x - 52"]
    by (simp add: rnd_pos_def [of x] Let_def)
qed

lemma rnd_simps [simp]: "rnd 0 = 0" "0 < x \<Longrightarrow> rnd x = rnd_pos x"
  by (simp_all add: rnd_def)

lemma rnd_nonneg: "0 \<le> x \<Longrightarrow> 0 \<le> rnd x"
  by (cases "x = 0") (auto simp: rnd_pos_gt0 less_imp_le)

lemma rnd_mono_nonneg: "0 \<le> x \<Longrightarrow> x \<le> y \<Longrightarrow> rnd x \<le> rnd y"
  by (cases "x = 0") (auto simp: rnd_pos_mono intro: rnd_nonneg)

lemma rnd_idem_nonneg: "0 \<le> x \<Longrightarrow> rnd (rnd x) = rnd x"
  by (cases "x = 0") (auto simp: rnd_pos_idem rnd_pos_gt0)

lemma rnd_of_int: "0 \<le> n \<Longrightarrow> n \<le> 2 ^ 53 \<Longrightarrow> rnd (of_int n) = of_int n"
  using rnd_pos_exact [of n 0] by (cases "n = 0") simp_all

section \<open>Values\<close>

datatype f64 = Fin rat | PInf | NInf | NaN

definition to_f64 :: "rat \<Rightarrow> f64" where
  "to_f64 x = (let r = rnd x in if 2 ^ 1024 \<le> r then PInf else if r \<le> - (2 ^ 1024) then NInf else Fin r)"

text \<open>\<open>float64(n)\<close> for an integer \<open>n\<close> of at most 64 bits.\<close>

definition f64_of_int :: "int \<Rightarrow> f64" where
  "f64_of_int n = Fin (rnd (of_int n))"

fun f64_mult :: "f64 \<Rightarrow> f64 \<Rightarrow> f64" where
  "f64_mult (Fin a) (Fin b) = to_f64 (a * b)"
| "f64_mult NaN _ = NaN"
| "f64_mult _ NaN = NaN"
| "f64_mult (Fin a) PInf = (if a = 0 then NaN else if 0 < a then PInf else NInf)"
| "f64_mult (Fin a) NInf = (if a = 0 then NaN else if 0 < a then NInf else PInf)"
| "f64_mult PInf (Fin b) = (if b = 0 then NaN else if 0 < b then PInf else NInf)"
| "f64_mult NInf (Fin b) = (if b = 0 then NaN else if 0 < b then NInf else PInf)"
| "f64_mult PInf PInf = PInf"
| "f64_mult PInf NInf = NInf"
| "f64_mult NInf PInf = NInf"
| "f64_mult NInf NInf = PInf"

text \<open>\<open>a <= b\<close>; every comparison with a NaN is false.\<close>

fun f64_le :: "f64 \<Rightarrow> f64 \<Rightarrow> bool" where
  "f64_le NaN _ = False"
| "f64_le _ NaN = False"
| "f64_le NInf _ = True"
| "f64_le _ PInf = True"
| "f64_le (Fin a) (Fin b) = (a \<le> b)"
| "f64_le PInf _ = False"
| "f64_le (Fin a) NInf = False"

abbreviation f64_ge :: "f64 \<Rightarrow> f64 \<Rightarrow> bool" where
  "f64_ge a b \<equiv> f64_le b a"

text \<open>
  \<open>int64(d)\<close>: truncation towards zero. Go leaves the result open when the truncated value does
  not fit (or \<open>d\<close> is a NaN or an infinity); the model returns the smallest integer there, as
  amd64 does.
\<close>

definition trunc_rat :: "rat \<Rightarrow> int" where
  "trunc_rat x = (if 0 \<le> x then \<lfloor>x\<rfloor> else - \<lfloor>- x\<rfloor>)"

fun f64_to_i64 :: "f64 \<Rightarrow> int" where
  "f64_to_i64 (Fin x) = (if in_i64 (trunc_rat x) then trunc_rat x else minInt64)"
| "f64_to_i64 _ = minInt64"

section \<open>math.Pow\<close>

text \<open>The loop of \<open>math.Pow\<close> over the bits of an integral exponent: the result is
  \<open>a1 * 2 ^ ae\<close>, the running square \<open>x1 * 2 ^ xe\<close> with \<open>x1\<close> in \<open>[1/2, 1)\<close>.\<close>

fun pow_loop :: "rat \<Rightarrow> int \<Rightarrow> rat \<Rightarrow> int \<Rightarrow> nat \<Rightarrow> rat \<times> int" where
  "pow_loop a1 ae x1 xe i =
     (if i = 0 then (a1, ae)
      else if xe < - 4096 \<or> 4096 < xe then (a1, ae + xe)
      else let a1' = (if odd i then rnd (a1 * x1) else a1);
               ae' = (if odd i then ae + xe else ae);
               x2 = rnd (x1 * x1)
           in if x2 < 1 / 2 then pow_loop a1' ae' (2 * x2) (2 * xe - 1) (i div 2)
              else pow_loop a1' ae' x2 (2 * xe) (i div 2))"

declare pow_loop.simps [simp del]

text \<open>\<open>math.Pow(x, n)\<close> for integral \<open>n\<close> at least 1 and \<open>x\<close> above 1 (or a NaN, or infinite), the
  only arguments the module passes.\<close>

definition math_pow :: "f64 \<Rightarrow> nat \<Rightarrow> f64" where
  "math_pow x n =
     (if n = 1 then x
      else case x of
        Fin q \<Rightarrow> let k = binade q; (a, e) = pow_loop 1 0 (q / 2 powi (k + 1)) (k + 1) n
                in to_f64 (a * 2 powi e)
      | _ \<Rightarrow> x)"

lemma pow_loop_nonneg: "0 \<le> a1 \<Longrightarrow> 0 \<le> x1 \<Longrightarrow> 0 \<le> fst (pow_loop a1 ae x1 xe i)"
proof (induction a1 ae x1 xe i rule: pow_loop.induct)
  case (1 a1 ae x1 xe i)
  show ?case
  proof (cases "i = 0 \<or> xe < - 4096 \<or> 4096 < xe")
    case True
    with "1.prems" show ?thesis by (auto simp: pow_loop.simps [of a1 ae x1 xe i])
  next
    case False
    with "1.prems" "1.IH" show ?thesis
      by (subst pow_loop.simps) (simp add: Let_def rnd_nonneg)
  qed
qed

lemma to_f64_nonneg: "0 \<le> x \<Longrightarrow> (\<exists>r \<ge> 0. to_f64 x = Fin r \<and> r = rnd x) \<or> to_f64 x = PInf"
  using rnd_nonneg [of x] by (auto simp: to_f64_def Let_def)

lemma math_pow_nonneg: "0 \<le> q \<Longrightarrow> (\<exists>r \<ge> 0. math_pow (Fin q) n = Fin r) \<or> math_pow (Fin q) n = PInf"
proof (cases "n = 1")
  case False
  assume "0 \<le> q"
  then have nn: "0 \<le> fst (pow_loop 1 0 (q / 2 powi (binade q + 1)) (binade q + 1) n)"
    by (intro pow_loop_nonneg) simp_all
  obtain a e where p: "pow_loop 1 0 (q / 2 powi (binade q + 1)) (binade q + 1) n = (a, e)"
    by fastforce
  with nn have "0 \<le> a * 2 powi e" by simp
  from to_f64_nonneg [OF this] show ?thesis
    using False by (auto simp: math_pow_def Let_def p)
qed (simp add: math_pow_def)

end
