(* ===== verification/Backoff.thy ===== *)
theory Backoff
  imports JetMsg Float64
begin

text \<open>
  \<open>backoff/backoff.go\<close>: the redelivery policy. \<open>policy\<close> is the struct \<open>Policy\<close>; \<open>DelayFor\<close>,
  \<open>NumDelivered\<close>, \<open>IsFinalDelivery\<close>, \<open>IsInterrupted\<close> and \<open>NakOrTerm\<close> are its functions. The lemmas
  bound the delay envelope over the code's floating-point arithmetic and pin which disposition each
  delivery gets.
\<close>

section \<open>The policy\<close>

definition UnlimitedMaxDeliver :: int where
  "UnlimitedMaxDeliver = -1"

datatype backoff_outcome = OutcomeNak | OutcomeTerm

record policy =
  polNakDelay :: duration
  polFactor :: f64
  polMaxDelay :: duration
  polMaxDeliver :: int
  polTermOnExhaustion :: bool

definition IsInterrupted :: "ctx \<Rightarrow> bool" where
  "IsInterrupted c = opt_is (ctxErr c) CtxCanceled"

definition DelayFor :: "policy \<Rightarrow> int \<Rightarrow> duration" where
  "DelayFor p numDelivered =
     (if f64_le (polFactor p) (Fin 1) \<or> numDelivered \<le> 1 then polNakDelay p
      else let d = f64_mult (f64_of_int (polNakDelay p))
                     (math_pow (polFactor p) (nat \<lfloor>rnd (of_int (numDelivered - 1))\<rfloor>))
           in if 0 < polMaxDelay p \<and> f64_ge d (f64_of_int (polMaxDelay p)) then polMaxDelay p
              else if f64_ge d (f64_of_int maxInt64) then maxInt64
              else f64_to_i64 d)"

definition NumDelivered :: "jmsg \<Rightarrow> int" where
  "NumDelivered m = (case meta_of m of Some md \<Rightarrow> sint (mdNumDelivered md) | None \<Rightarrow> 0)"

definition IsFinalDelivery :: "jmsg \<Rightarrow> int \<Rightarrow> bool" where
  "IsFinalDelivery m maxDeliver =
     (if maxDeliver \<le> 0 then False
      else case meta_of m of
        Some md \<Rightarrow> word_of_int maxDeliver \<le> mdNumDelivered md
      | None \<Rightarrow> False)"

definition NakOrTerm :: "policy \<Rightarrow> ctx \<Rightarrow> jmsg \<Rightarrow> (backoff_outcome \<times> goerr option) \<times> msg_call list" where
  "NakOrTerm p c m =
     (if \<not> IsInterrupted c \<and> polTermOnExhaustion p \<and> IsFinalDelivery m (polMaxDeliver p)
      then ((OutcomeTerm, map_option (Errorf ''term on final delivery'') (ansTerm m)), [CallTerm])
      else let d = DelayFor p (NumDelivered m)
           in ((OutcomeNak, map_option (Errorf ''nak with delay'') (ansNakWithDelay m d)),
               [CallNakWithDelay d]))"

section \<open>The delay envelope\<close>

lemma DelayFor_flat: "f64_le (polFactor p) (Fin 1) \<or> n \<le> 1 \<Longrightarrow> DelayFor p n = polNakDelay p"
  by (simp add: DelayFor_def)

lemma grown_product:
  assumes "0 < d" "\<not> f64_le f (Fin 1)" "f \<noteq> NaN"
  shows "(\<exists>x \<ge> 0. f64_mult (f64_of_int d) (math_pow f n) = Fin (rnd x)) \<or>
         f64_mult (f64_of_int d) (math_pow f n) = PInf"
proof -
  have d: "0 < rnd (of_int d)" using assms(1) by (simp add: rnd_pos_gt0)
  from assms(2,3) consider q where "f = Fin q" "0 \<le> q" | "f = PInf"
    by (cases f) auto
  then show ?thesis
  proof cases
    case (1 q)
    from math_pow_nonneg [OF 1(2), of n] show ?thesis
    proof
      assume "\<exists>r \<ge> 0. math_pow (Fin q) n = Fin r"
      then obtain r where r: "0 \<le> r" "math_pow (Fin q) n = Fin r" by auto
      have "0 \<le> rnd (of_int d) * r" using d r(1) by simp
      from to_f64_nonneg [OF this] show ?thesis
        using \<open>0 \<le> rnd (of_int d) * r\<close> by (auto simp: f64_of_int_def 1(1) r(2))
    qed (use d in \<open>simp add: f64_of_int_def 1(1)\<close>)
  next
    case 2
    then show ?thesis using d by (simp add: f64_of_int_def math_pow_def)
  qed
qed

lemma trunc_below:
  assumes "0 \<le> x" "rnd x < rnd (of_int M)" "in_i64 M" "0 < M"
  shows "0 \<le> f64_to_i64 (Fin (rnd x)) \<and> f64_to_i64 (Fin (rnd x)) \<le> M"
proof -
  have "rnd x \<le> of_int M"
  proof (rule ccontr)
    assume "\<not> rnd x \<le> of_int M"
    then have "rnd (of_int M) \<le> rnd (rnd x)"
      using assms(4) by (intro rnd_mono_nonneg) simp_all
    with assms(1,2) show False by (simp add: rnd_idem_nonneg)
  qed
  then have hi: "\<lfloor>rnd x\<rfloor> \<le> M" by (simp add: floor_le_iff)
  have lo: "0 \<le> \<lfloor>rnd x\<rfloor>" using rnd_nonneg [OF assms(1)] by simp
  have t: "trunc_rat (rnd x) = \<lfloor>rnd x\<rfloor>"
    using rnd_nonneg [OF assms(1)] by (simp only: trunc_rat_def if_True)
  have r: "in_i64 \<lfloor>rnd x\<rfloor>" by (rule in_i64_between [OF assms(3) lo hi])
  have "f64_to_i64 (Fin (rnd x)) = \<lfloor>rnd x\<rfloor>"
    by (simp only: f64_to_i64.simps t r if_True)
  with lo hi show ?thesis by (simp only:)
qed

lemma grown_delay_bounds:
  assumes "0 < polNakDelay p" "in_i64 (polMaxDelay p)" "polFactor p \<noteq> NaN"
    and "\<not> f64_le (polFactor p) (Fin 1)" "1 < n"
  shows "0 \<le> DelayFor p n \<and> DelayFor p n \<le> maxInt64 \<and>
         (0 < polMaxDelay p \<longrightarrow> DelayFor p n \<le> polMaxDelay p)"
proof -
  define d where "d = f64_mult (f64_of_int (polNakDelay p))
              (math_pow (polFactor p) (nat \<lfloor>rnd (of_int (n - 1))\<rfloor>))"
  have D: "DelayFor p n =
     (if 0 < polMaxDelay p \<and> f64_ge d (f64_of_int (polMaxDelay p)) then polMaxDelay p
      else if f64_ge d (f64_of_int maxInt64) then maxInt64 else f64_to_i64 d)"
    using assms(4,5) by (simp add: DelayFor_def Let_def d_def)
  have M: "in_i64 maxInt64" "0 < maxInt64" "polMaxDelay p \<le> maxInt64"
    using assms(2) by (simp_all add: in_i64_def maxInt64_def)
  from grown_product [OF assms(1,4,3), of "nat \<lfloor>rnd (of_int (n - 1))\<rfloor>", folded d_def]
  show ?thesis
  proof
    assume "d = PInf"
    then show ?thesis using M by (simp add: D f64_of_int_def)
  next
    assume "\<exists>x \<ge> 0. d = Fin (rnd x)"
    then obtain x where x: "0 \<le> x" "d = Fin (rnd x)" by auto
    have *: "0 \<le> f64_to_i64 (Fin (rnd x)) \<and> f64_to_i64 (Fin (rnd x)) \<le> L"
      if "\<not> f64_ge (Fin (rnd x)) (f64_of_int L)" "in_i64 L" "0 < L" for L
      using trunc_below [OF x(1) _ that(2,3)] that(1) by (simp add: f64_of_int_def del: f64_to_i64.simps)
    have "rnd (of_int (polMaxDelay p)) \<le> rnd (of_int maxInt64)" if "0 < polMaxDelay p"
      using that M(3) by (intro rnd_mono_nonneg) simp_all
    then have cap: "f64_ge (Fin (rnd x)) (f64_of_int (polMaxDelay p))"
      if "0 < polMaxDelay p" "f64_ge (Fin (rnd x)) (f64_of_int maxInt64)"
      using that by (auto simp: f64_of_int_def)
    show ?thesis
      using M cap *[of maxInt64] *[of "polMaxDelay p"] assms(2)
      by (auto simp add: D x(2) simp del: f64_to_i64.simps f64_le.simps)
  qed
qed

lemma DelayFor_bounds:
  assumes "0 < polNakDelay p" "in_i64 (polNakDelay p)" "in_i64 (polMaxDelay p)" "polFactor p \<noteq> NaN"
  shows "0 \<le> DelayFor p n" "DelayFor p n \<le> maxInt64"
    "\<not> f64_le (polFactor p) (Fin 1) \<Longrightarrow> 1 < n \<Longrightarrow> 0 < polMaxDelay p \<Longrightarrow> DelayFor p n \<le> polMaxDelay p"
  using assms grown_delay_bounds [OF assms(1,3,4), of n]
  by (cases "f64_le (polFactor p) (Fin 1) \<or> n \<le> 1";
      auto simp: DelayFor_flat in_i64_def maxInt64_def)+

text \<open>
  C23. The policy's delay is never negative and never wraps: for a positive base delay and a factor
  that is a number, every delivery's delay lies between 0 and the largest \<open>time.Duration\<close>, and a
  growing policy with a cap stays within the cap after the first delivery, whatever the rounding of
  the floating-point product.
\<close>

theorem DelayFor_envelope:
  assumes "0 < polNakDelay p" "in_i64 (polNakDelay p)" "in_i64 (polMaxDelay p)" "polFactor p \<noteq> NaN"
  shows "0 \<le> DelayFor p n \<and> DelayFor p n \<le> maxInt64 \<and>
    (\<not> f64_le (polFactor p) (Fin 1) \<and> 1 < n \<and> 0 < polMaxDelay p \<longrightarrow> DelayFor p n \<le> polMaxDelay p)"
  using DelayFor_bounds [OF assms] by blast

definition sample_policy :: policy where
  "sample_policy = \<lparr>polNakDelay = 5 * second, polFactor = Fin 2, polMaxDelay = minute,
     polMaxDeliver = 5, polTermOnExhaustion = True\<rparr>"

theorem DelayFor_envelope_witness:
  "0 \<le> DelayFor sample_policy 7 \<and> DelayFor sample_policy 7 \<le> minute"
  using DelayFor_envelope [of sample_policy 7]
  by (simp add: sample_policy_def duration_units in_i64_def)

section \<open>The disposition\<close>

lemma IsFinalDelivery_iff:
  assumes "in_i64 k"
  shows "IsFinalDelivery m k \<longleftrightarrow> 0 < k \<and> (\<exists>md. meta_of m = Some md \<and> k \<le> uint (mdNumDelivered md))"
proof (cases "0 < k")
  case True
  then have "uint (word_of_int k :: uint64) = k"
    using assms by (simp add: uint_word_of_int in_i64_def)
  with True show ?thesis
    by (auto simp: IsFinalDelivery_def word_le_def split: option.splits)
qed (simp add: IsFinalDelivery_def)

lemma NumDelivered_eq: "meta_of m = Some md \<Longrightarrow> uint (mdNumDelivered md) < 2 ^ 63 \<Longrightarrow>
    NumDelivered m = uint (mdNumDelivered md)"
  by (simp add: NumDelivered_def sint_uint signed_take_bit_int_eq_self_iff)
    (rule order_trans [of _ 0], simp_all)

lemma NakOrTerm_calls:
  assumes "in_i64 (polMaxDeliver p)" "meta_of m = Some md" "uint (mdNumDelivered md) = n" "n < 2 ^ 63"
  shows "snd (NakOrTerm p c m) =
      (if \<not> IsInterrupted c \<and> polTermOnExhaustion p \<and> 0 < polMaxDeliver p \<and> polMaxDeliver p \<le> n
       then [CallTerm] else [CallNakWithDelay (DelayFor p n)])"
    "fst (fst (NakOrTerm p c m)) =
      (if \<not> IsInterrupted c \<and> polTermOnExhaustion p \<and> 0 < polMaxDeliver p \<and> polMaxDeliver p \<le> n
       then OutcomeTerm else OutcomeNak)"
  using NumDelivered_eq [OF assms(2)] assms(2-4)
  by (auto simp: NakOrTerm_def IsFinalDelivery_iff [OF assms(1)] Let_def)

text \<open>The deliveries \<open>ns\<close> of a message whose handler fails every time and disposes with the policy: the
  broker delivers again as long as the disposition was a Nak. \<open>world n\<close> is the context and the message of
  the \<open>n\<close>-th delivery.\<close>

fun nak_lifetime :: "policy \<Rightarrow> (int \<Rightarrow> ctx \<times> jmsg) \<Rightarrow> int list \<Rightarrow> msg_call list" where
  "nak_lifetime p world [] = []"
| "nak_lifetime p world (n # ns) =
     (let (c, m) = world n; ((outcome, err), calls) = NakOrTerm p c m
      in calls @ (if outcome = OutcomeNak then nak_lifetime p world ns else []))"

text \<open>The server counts the deliveries of a message from one.\<close>

definition counts_deliveries :: "(int \<Rightarrow> ctx \<times> jmsg) \<Rightarrow> int \<Rightarrow> bool" where
  "counts_deliveries world k \<longleftrightarrow>
     (\<forall>n \<in> {1..k}. \<exists>md. meta_of (snd (world n)) = Some md \<and> uint (mdNumDelivered md) = n)"

definition last_disposition :: "policy \<Rightarrow> (int \<Rightarrow> ctx \<times> jmsg) \<Rightarrow> int \<Rightarrow> msg_call" where
  "last_disposition p world k =
     (if polTermOnExhaustion p \<and> polMaxDeliver p = k \<and> \<not> IsInterrupted (fst (world k))
      then CallTerm else CallNakWithDelay (DelayFor p k))"

lemma nak_lifetime_from:
  assumes "in_i64 (polMaxDeliver p)" "counts_deliveries world k" "k < 2 ^ 63"
    and "0 < polMaxDeliver p \<longrightarrow> k \<le> polMaxDeliver p"
  shows "1 \<le> j \<Longrightarrow> j \<le> k \<Longrightarrow> nak_lifetime p world [j..k] =
     map (\<lambda>n. CallNakWithDelay (DelayFor p n)) [j..k - 1] @ [last_disposition p world k]"
proof (induction "nat (k - j)" arbitrary: j)
  case 0
  then have jk: "j = k" by simp
  obtain c m where w: "world k = (c, m)" by (cases "world k")
  then obtain md where md: "meta_of m = Some md" "uint (mdNumDelivered md) = k"
    using assms(2) 0 jk by (auto simp: counts_deliveries_def dest!: bspec [of _ _ k])
  note r = NakOrTerm_calls [OF assms(1) md assms(3), of c]
  have "(0 < polMaxDeliver p \<and> polMaxDeliver p \<le> k) = (polMaxDeliver p = k)" using assms(4) 0 jk by auto
  then show ?case using r
    by (cases "NakOrTerm p c m") (auto simp: jk w last_disposition_def)
next
  case (Suc d)
  obtain c m where w: "world j = (c, m)" by (cases "world j")
  then obtain md where md: "meta_of m = Some md" "uint (mdNumDelivered md) = j"
    using assms(2) Suc by (auto simp: counts_deliveries_def dest!: bspec [of _ _ j])
  have "j < 2 ^ 63" "j < k" using assms(3) Suc by simp_all
  note r = NakOrTerm_calls [OF assms(1) md \<open>j < 2 ^ 63\<close>, of c]
  have "\<not> (0 < polMaxDeliver p \<and> polMaxDeliver p \<le> j)" using assms(4) \<open>j < k\<close> by auto
  then have nak: "snd (NakOrTerm p c m) = [CallNakWithDelay (DelayFor p j)]"
    "fst (fst (NakOrTerm p c m)) = OutcomeNak"
    using r by auto
  have "nak_lifetime p world [j + 1..k] =
      map (\<lambda>n. CallNakWithDelay (DelayFor p n)) [j + 1..k - 1] @ [last_disposition p world k]"
    using Suc by (intro Suc.hyps(1)) auto
  moreover have "[j..k] = j # [j + 1..k]" "[j..k - 1] = j # [j + 1..k - 1]"
    using \<open>j < k\<close> by (simp_all add: upto_rec1)
  ultimately show ?case using nak
    by (cases "NakOrTerm p c m") (auto simp: w)
qed

text \<open>
  C22. The life of a failing message under a policy. When the server counts deliveries, the first \<open>k\<close> of
  them (never more than a finite cap) are Naked one by one with the policy's delay for that delivery
  number, whatever interrupts them, and the last of the \<open>k\<close> is Termed exactly when it is the cap's
  delivery, the policy asks for it and its handler was not cancelled. So a Terming policy discards a
  message once, on the very last delivery the server makes and not before; an interrupted last delivery
  and a policy without a cap never discard one.
\<close>

theorem failing_message_naks_until_cap:
  assumes "in_i64 (polMaxDeliver p)" and "counts_deliveries world k" and "1 \<le> k" and "k < 2 ^ 63"
    and "0 < polMaxDeliver p \<longrightarrow> k \<le> polMaxDeliver p"
  shows "nak_lifetime p world [1..k] =
     map (\<lambda>n. CallNakWithDelay (DelayFor p n)) [1..k - 1] @
     [if polTermOnExhaustion p \<and> polMaxDeliver p = k \<and> \<not> IsInterrupted (fst (world k))
      then CallTerm else CallNakWithDelay (DelayFor p k)]"
  using nak_lifetime_from [OF assms(1,2,4,5), of 1] assms(3) by (simp add: last_disposition_def)

text \<open>A world for evaluation: the second handler is cancelled.\<close>

definition counted_world :: "int \<Rightarrow> ctx \<times> jmsg" where
  "counted_world n = (if n = 2 then cancelled background else background, sample_msg 9 (word_of_int n))"

theorem failing_message_naks_until_cap_witness:
  "last (nak_lifetime sample_policy counted_world [1..5]) = CallTerm \<and>
   nak_lifetime sample_policy counted_world [1..2] =
     [CallNakWithDelay (DelayFor sample_policy 1), CallNakWithDelay (DelayFor sample_policy 2)]"
proof -
  have m: "polMaxDeliver sample_policy = 5" "polTermOnExhaustion sample_policy" by (simp_all add: sample_policy_def)
  have "meta_of (snd (counted_world n)) = Some (sample_metadata 9 (word_of_int n))" for n
    by (simp add: counted_world_def)
  then have c: "counts_deliveries counted_world k" if "k \<le> 5" for k
    using that by (auto simp: counts_deliveries_def uint_word_of_int)
  have live: "\<not> IsInterrupted (fst (counted_world 5))" by code_simp
  show ?thesis
    using failing_message_naks_until_cap [OF _ c, of sample_policy 5]
      failing_message_naks_until_cap [OF _ c, of sample_policy 2] m live
    by (simp add: in_i64_def upto_rec1)
qed

text \<open>
  An interrupted delivery is never discarded: whatever the policy and the delivery count, a
  cancelled handler context yields a Nak, while a context that merely timed out is not an
  interruption.
\<close>

theorem interrupted_never_termed:
  assumes "IsInterrupted c"
  shows "fst (fst (NakOrTerm p c m)) = OutcomeNak \<and> \<not> (\<exists>x \<in> set (snd (NakOrTerm p c m)). terms x)"
  using assms by (simp add: NakOrTerm_def Let_def)

theorem interrupted_never_termed_witness:
  "fst (fst (NakOrTerm sample_policy (cancelled background) (sample_msg 9 5))) = OutcomeNak"
  using interrupted_never_termed [of "cancelled background" sample_policy "sample_msg 9 5"]
  by (simp add: IsInterrupted_def background_def cancelled_def)

lemma deadline_is_not_interruption:
  "ctxErr c = Some (Sentinel CtxDeadlineExceeded) \<Longrightarrow> \<not> IsInterrupted c"
  by (simp add: IsInterrupted_def)

lemma unlimited_never_final: "k \<le> 0 \<Longrightarrow> \<not> IsFinalDelivery m k"
  by (simp add: IsFinalDelivery_def)

text \<open>
  A growing factor over a zero base multiplies 0 by an infinity once the power overflows: the
  product is not a number, passes both saturation tests and is converted as it is.
\<close>

lemma zero_base_infinite_power:
  "DelayFor \<lparr>polNakDelay = 0, polFactor = PInf, polMaxDelay = minute, polMaxDeliver = 0,
     polTermOnExhaustion = False\<rparr> 3 = minInt64"
  by (simp add: DelayFor_def f64_of_int_def math_pow_def)

end
