(* ===== verification/Schedule.thy ===== *)
theory Schedule
  imports Backoff
begin

text \<open>
  \<open>jsconsumer/schedule.go\<close>: a consumer's retry timing as plain values and the one implementation
  of its arithmetic. \<open>schedule\<close> is the struct \<open>Schedule\<close>; \<open>RungBefore\<close>, \<open>CumulativeTo\<close>,
  \<open>LongestRung\<close>, \<open>TimeToDeadLetter\<close>, \<open>Validate\<close> and \<open>Schedule_Err\<close> are its methods, with the sums
  of durations wrapping at 64 bits as in Go. A violation's text is kept as the constructor of
  \<open>problem\<close> with the values the message prints.

  The abstract specification is \<open>coherent\<close>, over unbounded integers; the main result is that
  \<open>Validate\<close> is empty exactly for the coherent schedules whenever the ladder's total fits a
  \<open>time.Duration\<close>.
\<close>

section \<open>The schedule\<close>

record schedule =
  scNakDelay :: duration
  scFactor :: f64
  scMaxDelay :: duration
  scServerBackOff :: "duration list"
  scMaxDeliver :: int
  scAckWait :: duration
  scCaptureReserve :: int
  scMaxTimeToDeadLetter :: duration
  scRecoverBy :: int
  scFloorAge :: duration
  scStreamMaxAge :: duration

text \<open>The zero value of the struct, which a composite literal starts from.\<close>

definition zero_schedule :: schedule where
  "zero_schedule = \<lparr>scNakDelay = 0, scFactor = Fin 0, scMaxDelay = 0, scServerBackOff = [],
     scMaxDeliver = 0, scAckWait = 0, scCaptureReserve = 0, scMaxTimeToDeadLetter = 0,
     scRecoverBy = 0, scFloorAge = 0, scStreamMaxAge = 0\<rparr>"

datatype problem =
    TwoSchedulers duration
  | NegativeDuration duration
  | UncappedGrowth f64
  | RungNotPositive nat duration
  | BadMaxDeliver int
  | NegativeCount int
  | ReserveLeavesNone int int
  | TooManyRungs nat int
  | AckWaitDisagrees duration duration
  | LadderPastBound duration int duration
  | LadderPastRetention duration duration
  | RecoverPastLadder int int
  | RecoverPastFloorAge int duration duration
  | BreakerNeverFires duration duration
  | RungPastFloorAge duration duration

record violation =
  vField :: string
  vProblem :: problem

definition viol :: "string \<Rightarrow> problem \<Rightarrow> violation" where
  "viol f p = \<lparr>vField = f, vProblem = p\<rparr>"

definition Ladder :: "schedule \<Rightarrow> policy" where
  "Ladder s = \<lparr>polNakDelay = scNakDelay s, polFactor = scFactor s, polMaxDelay = scMaxDelay s,
     polMaxDeliver = scMaxDeliver s, polTermOnExhaustion = False\<rparr>"

definition DeadLetterDelivery :: "schedule \<Rightarrow> int" where
  "DeadLetterDelivery s = wrap64 (scMaxDeliver s - scCaptureReserve s)"

definition RungBefore :: "schedule \<Rightarrow> int \<Rightarrow> duration" where
  "RungBefore s n =
     (if n < 2 then 0
      else if scServerBackOff s \<noteq> []
        then scServerBackOff s ! nat (min (n - 2) (int (length (scServerBackOff s)) - 1))
      else if 0 < scNakDelay s then DelayFor (Ladder s) (n - 1)
      else scAckWait s)"

definition CumulativeTo :: "schedule \<Rightarrow> int \<Rightarrow> duration" where
  "CumulativeTo s n = foldl (\<lambda>total i. wrap64 (total + RungBefore s i)) 0 [2..n]"

definition LongestRung :: "schedule \<Rightarrow> duration" where
  "LongestRung s = foldl (\<lambda>longest i. max longest (RungBefore s i)) 0 [2..DeadLetterDelivery s]"

definition TimeToDeadLetter :: "schedule \<Rightarrow> duration" where
  "TimeToDeadLetter s = CumulativeTo s (DeadLetterDelivery s)"

section \<open>Validation\<close>

definition f64_gt1 :: "f64 \<Rightarrow> bool" where
  "f64_gt1 f \<longleftrightarrow> f64_le (Fin 1) f \<and> \<not> f64_le f (Fin 1)"

definition rung_checks :: "duration list \<Rightarrow> violation list" where
  "rung_checks rungs = concat (map (\<lambda>(i, d). if d \<le> 0 then [viol ''ServerBackOff'' (RungNotPositive i d)] else [])
     (enumerate 0 rungs))"

text \<open>The checks up to the early return, in the code's order.\<close>

definition structural_checks :: "schedule \<Rightarrow> violation list" where
  "structural_checks s =
     (if 0 < scNakDelay s \<and> scServerBackOff s \<noteq> [] then [viol ''ServerBackOff'' (TwoSchedulers (scNakDelay s))] else []) @
     (if scNakDelay s < 0 then [viol ''NakDelay'' (NegativeDuration (scNakDelay s))] else []) @
     (if f64_gt1 (scFactor s) \<and> scMaxDelay s \<le> 0 then [viol ''MaxDelay'' (UncappedGrowth (scFactor s))] else []) @
     rung_checks (scServerBackOff s) @
     (if scMaxTimeToDeadLetter s < 0
      then [viol ''MaxTimeToDeadLetter'' (NegativeDuration (scMaxTimeToDeadLetter s))] else []) @
     (if scMaxDeliver s < UnlimitedMaxDeliver then [viol ''MaxDeliver'' (BadMaxDeliver (scMaxDeliver s))] else []) @
     (if scCaptureReserve s < 0 then [viol ''CaptureReserve'' (NegativeCount (scCaptureReserve s))] else []) @
     (if 0 < scMaxDeliver s \<and> scMaxDeliver s \<le> scCaptureReserve s
      then [viol ''CaptureReserve'' (ReserveLeavesNone (scCaptureReserve s) (scMaxDeliver s))] else []) @
     (let n = length (scServerBackOff s) in
      if 0 < n \<and> 0 < scMaxDeliver s \<and> scMaxDeliver s < int n
      then [viol ''ServerBackOff'' (TooManyRungs n (scMaxDeliver s))] else []) @
     (case scServerBackOff s of
        r0 # _ \<Rightarrow> if 0 < scAckWait s \<and> scAckWait s \<noteq> r0
                 then [viol ''AckWait'' (AckWaitDisagrees (scAckWait s) r0)] else []
      | [] \<Rightarrow> [])"

text \<open>The checks that need a terminal branch.\<close>

definition ladder_checks :: "schedule \<Rightarrow> violation list" where
  "ladder_checks s =
     (let ttl = TimeToDeadLetter s; d = DeadLetterDelivery s in
      (if 0 < scMaxTimeToDeadLetter s \<and> scMaxTimeToDeadLetter s < ttl
       then [viol ''MaxTimeToDeadLetter'' (LadderPastBound ttl d (scMaxTimeToDeadLetter s))] else []) @
      (if 0 < scStreamMaxAge s \<and> scStreamMaxAge s \<le> ttl
       then [viol ''StreamMaxAge'' (LadderPastRetention ttl (scStreamMaxAge s))] else []) @
      (if scRecoverBy s < 0 then [viol ''RecoverBy'' (NegativeCount (scRecoverBy s))] else []) @
      (if d < scRecoverBy s then [viol ''RecoverBy'' (RecoverPastLadder (scRecoverBy s) d)] else []) @
      (if 0 < scFloorAge s then
         (if 0 < scRecoverBy s \<and> scRecoverBy s \<le> d \<and> scFloorAge s \<le> CumulativeTo s (scRecoverBy s)
          then [viol ''RecoverBy'' (RecoverPastFloorAge (scRecoverBy s) (CumulativeTo s (scRecoverBy s)) (scFloorAge s))]
          else []) @
         (if 0 < ttl \<and> ttl < scFloorAge s then [viol ''FloorAge'' (BreakerNeverFires (scFloorAge s) ttl)] else []) @
         (if scFloorAge s < LongestRung s
          then [viol ''FloorAge'' (RungPastFloorAge (LongestRung s) (scFloorAge s))] else [])
       else []))"

definition Validate :: "schedule \<Rightarrow> violation list" where
  "Validate s =
     (if scMaxDeliver s \<le> 0 \<or> DeadLetterDelivery s < 1 then structural_checks s
      else structural_checks s @ ladder_checks s)"

text \<open>\<open>Err\<close>: the violations its one error joins, or \<open>None\<close> for nil.\<close>

definition Schedule_Err :: "schedule \<Rightarrow> violation list option" where
  "Schedule_Err s = (let vs = Validate s in if vs = [] then None else Some vs)"

lemma Schedule_Err_None [simp]: "Schedule_Err s = None \<longleftrightarrow> Validate s = []"
  by (simp add: Schedule_Err_def Let_def)

section \<open>The ladder in unbounded arithmetic\<close>

definition exact_total :: "schedule \<Rightarrow> int \<Rightarrow> int" where
  "exact_total s n = sum_list (map (RungBefore s) [2..n])"

lemma foldl_wrap_sum:
  assumes "\<forall>x \<in> set xs. 0 \<le> f x" "0 \<le> t" "t + sum_list (map f xs) \<le> maxInt64"
  shows "foldl (\<lambda>t x. wrap64 (t + f x)) t xs = t + sum_list (map f xs)"
  using assms
proof (induction xs arbitrary: t)
  case (Cons x xs)
  have "0 \<le> sum_list (map f xs)"
    using Cons.prems(1) by (intro sum_list_nonneg) auto
  then have "in_i64 (t + f x)"
    using Cons.prems by (simp add: in_i64_def maxInt64_def)
  then show ?case
    using Cons.IH [of "t + f x"] Cons.prems by (simp add: wrap64_id)
qed simp

lemma upto_split: "m \<le> n \<Longrightarrow> (2 :: int) \<le> m + 1 \<Longrightarrow> [2..n] = [2..m] @ [m + 1..n]"
proof (induction "nat (n - m)" arbitrary: n)
  case (Suc k)
  then have "[2..n] = [2..n - 1] @ [n]" "[m + 1..n] = [m + 1..n - 1] @ [n]"
    by (simp_all add: upto_rec2)
  then show ?case using Suc.hyps(1) [of "n - 1"] Suc.hyps(2) Suc.prems by simp
qed simp

lemma exact_total_mono:
  assumes "\<forall>i. 0 \<le> RungBefore s i" "m \<le> n"
  shows "exact_total s m \<le> exact_total s n"
proof (cases "2 \<le> m + 1")
  case True
  have "0 \<le> sum_list (map (RungBefore s) [m + 1..n])"
    using assms(1) by (intro sum_list_nonneg) auto
  then show ?thesis by (simp add: exact_total_def upto_split [OF assms(2) True])
next
  case False
  moreover have "0 \<le> sum_list (map (RungBefore s) [2..n])"
    using assms(1) by (intro sum_list_nonneg) auto
  ultimately show ?thesis by (simp add: exact_total_def)
qed



lemma CumulativeTo_exact:
  assumes "\<forall>i. 0 \<le> RungBefore s i" "exact_total s n \<le> maxInt64"
  shows "CumulativeTo s n = exact_total s n"
  using foldl_wrap_sum [of "[2..n]" "RungBefore s" 0] assms
  by (simp add: CumulativeTo_def exact_total_def)

lemma foldl_max_le: "foldl (\<lambda>l i. max l (f i)) (a :: int) xs \<le> b \<longleftrightarrow> a \<le> b \<and> (\<forall>x \<in> set xs. f x \<le> b)"
  by (induction xs arbitrary: a) auto

lemma LongestRung_le:
  "LongestRung s \<le> b \<longleftrightarrow> 0 \<le> b \<and> (\<forall>i. 2 \<le> i \<and> i \<le> DeadLetterDelivery s \<longrightarrow> RungBefore s i \<le> b)"
  by (auto simp: LongestRung_def foldl_max_le)

section \<open>The abstract specification\<close>

text \<open>
  What a coherent schedule promises, over unbounded integers: one scheduler, positive rungs, a cap
  that leaves room for the ladder and for the handler, and a ladder that reaches its dead-letter
  delivery within the bound and inside the stream's retention, recovers before the breaker's
  threshold, lets the breaker fire at all, and has no rung longer than that threshold.
\<close>

definition well_structured :: "schedule \<Rightarrow> bool" where
  "well_structured s \<longleftrightarrow>
     (scServerBackOff s = [] \<or> scNakDelay s = 0) \<and> 0 \<le> scNakDelay s \<and>
     (f64_gt1 (scFactor s) \<longrightarrow> 0 < scMaxDelay s) \<and>
     (\<forall>d \<in> set (scServerBackOff s). 0 < d) \<and>
     0 \<le> scMaxTimeToDeadLetter s \<and> UnlimitedMaxDeliver \<le> scMaxDeliver s \<and> 0 \<le> scCaptureReserve s \<and>
     (0 < scMaxDeliver s \<longrightarrow> scCaptureReserve s < scMaxDeliver s \<and>
        int (length (scServerBackOff s)) \<le> scMaxDeliver s) \<and>
     (scServerBackOff s \<noteq> [] \<and> 0 < scAckWait s \<longrightarrow> scAckWait s = hd (scServerBackOff s))"

definition keeps_bounds :: "schedule \<Rightarrow> bool" where
  "keeps_bounds s \<longleftrightarrow>
     (let d = scMaxDeliver s - scCaptureReserve s; total = exact_total s d in
      (0 < scMaxTimeToDeadLetter s \<longrightarrow> total \<le> scMaxTimeToDeadLetter s) \<and>
      (0 < scStreamMaxAge s \<longrightarrow> total < scStreamMaxAge s) \<and>
      0 \<le> scRecoverBy s \<and> scRecoverBy s \<le> d \<and>
      (0 < scFloorAge s \<longrightarrow>
         (0 < scRecoverBy s \<longrightarrow> exact_total s (scRecoverBy s) < scFloorAge s) \<and>
         (0 < total \<longrightarrow> scFloorAge s \<le> total) \<and>
         (\<forall>i. 2 \<le> i \<and> i \<le> d \<longrightarrow> RungBefore s i \<le> scFloorAge s)))"

definition coherent :: "schedule \<Rightarrow> bool" where
  "coherent s \<longleftrightarrow> well_structured s \<and> (0 < scMaxDeliver s \<longrightarrow> keeps_bounds s)"

text \<open>The values are Go values and the whole ladder's total fits a duration.\<close>

definition representable :: "schedule \<Rightarrow> bool" where
  "representable s \<longleftrightarrow>
     in_i64 (scNakDelay s) \<and> in_i64 (scMaxDelay s) \<and> in_i64 (scMaxDeliver s) \<and>
     0 \<le> scAckWait s \<and> scFactor s \<noteq> NaN \<and>
     exact_total s (scMaxDeliver s - scCaptureReserve s) \<le> maxInt64"

lemma rung_checks_Nil: "rung_checks rungs = [] \<longleftrightarrow> (\<forall>d \<in> set rungs. 0 < d)"
proof -
  have "rung_checks rungs = [] \<longleftrightarrow> (\<forall>p \<in> set (enumerate 0 rungs). 0 < snd p)"
    by (auto simp: rung_checks_def not_le split: if_splits)
  also have "\<dots> \<longleftrightarrow> (\<forall>d \<in> set (map snd (enumerate 0 rungs)). 0 < d)" by (simp only: set_map ball_simps)
  finally show ?thesis by simp
qed

lemma structural_checks_Nil: "structural_checks s = [] \<longleftrightarrow> well_structured s"
  by (cases "scServerBackOff s")
    (auto simp: structural_checks_def well_structured_def rung_checks_Nil Let_def not_less not_le)

lemma rungs_nonneg:
  assumes "well_structured s" "representable s"
  shows "0 \<le> RungBefore s n"
proof (cases "scServerBackOff s = []")
  case True
  moreover have "0 \<le> DelayFor (Ladder s) (n - 1)" if "0 < scNakDelay s"
    using DelayFor_bounds [of "Ladder s" "n - 1"] that assms(2)
    by (simp add: Ladder_def representable_def)
  ultimately show ?thesis using assms(2) by (simp add: RungBefore_def representable_def)
next
  case False
  then have "scServerBackOff s ! nat (min (n - 2) (int (length (scServerBackOff s)) - 1)) \<in> set (scServerBackOff s)"
  proof (intro nth_mem)
    have "nat (min (n - 2) (int (length (scServerBackOff s)) - 1)) \<le> length (scServerBackOff s) - 1"
      by (auto simp: min_def)
    then show "nat (min (n - 2) (int (length (scServerBackOff s)) - 1)) < length (scServerBackOff s)"
      using False by (cases "scServerBackOff s") auto
  qed
  then show ?thesis
    using False assms(1) by (auto simp: RungBefore_def well_structured_def intro: less_imp_le)
qed

lemma terminal_delivery:
  assumes "well_structured s" "representable s" "0 < scMaxDeliver s"
  shows "DeadLetterDelivery s = scMaxDeliver s - scCaptureReserve s" "1 \<le> DeadLetterDelivery s"
proof -
  have "in_i64 (scMaxDeliver s - scCaptureReserve s)"
    using assms by (auto simp: well_structured_def representable_def in_i64_def)
  then show "DeadLetterDelivery s = scMaxDeliver s - scCaptureReserve s"
    by (simp add: DeadLetterDelivery_def wrap64_id)
  then show "1 \<le> DeadLetterDelivery s"
    using assms(1,3) by (simp add: well_structured_def)
qed

lemma ladder_checks_Nil:
  assumes "well_structured s" "representable s" "0 < scMaxDeliver s"
  shows "ladder_checks s = [] \<longleftrightarrow> keeps_bounds s"
proof -
  have pos: "\<forall>i. 0 \<le> RungBefore s i" using rungs_nonneg [OF assms(1,2)] by simp
  note D = terminal_delivery [OF assms]
  have ttl: "TimeToDeadLetter s = exact_total s (DeadLetterDelivery s)"
    using assms(2) D(1) unfolding TimeToDeadLetter_def
    by (intro CumulativeTo_exact [OF pos]) (simp add: representable_def)
  have rec: "CumulativeTo s (scRecoverBy s) = exact_total s (scRecoverBy s)"
    if "scRecoverBy s \<le> DeadLetterDelivery s"
    using exact_total_mono [OF pos that] assms(2) D(1)
    by (intro CumulativeTo_exact [OF pos]) (simp add: representable_def)
  define short where
    "short \<longleftrightarrow> (\<forall>i. 2 \<le> i \<and> i \<le> DeadLetterDelivery s \<longrightarrow> RungBefore s i \<le> scFloorAge s)"
  have longest: "scFloorAge s < LongestRung s \<longleftrightarrow> \<not> short" if "0 < scFloorAge s"
    using LongestRung_le [of s "scFloorAge s"] that by (simp add: short_def not_le [symmetric])
  show ?thesis
    unfolding ladder_checks_def keeps_bounds_def Let_def ttl D(1) [symmetric] short_def [symmetric]
    by (cases "0 < scFloorAge s") (auto simp: rec longest not_less)
qed

lemma Validate_coherent:
  assumes "representable s"
  shows "Validate s = [] \<longleftrightarrow> coherent s"
proof (cases "well_structured s \<and> 0 < scMaxDeliver s")
  case True
  then show ?thesis
    using terminal_delivery(2) [OF _ assms] ladder_checks_Nil [OF _ assms]
    by (simp add: Validate_def structural_checks_Nil coherent_def)
next
  case False
  then show ?thesis
    by (auto simp: Validate_def structural_checks_Nil coherent_def)
qed

text \<open>
  C11. \<open>Validate\<close> implements its abstract specification: for Go values whose ladder fits a
  \<open>time.Duration\<close>, it reports no violation exactly when the schedule is coherent in exact
  arithmetic, so a schedule it passes really reaches its dead-letter delivery inside every bound
  stated, and a coherent one is never refused.
\<close>

theorem Validate_iff_coherent:
  assumes "representable s"
  shows "Validate s = [] \<longleftrightarrow> coherent s"
  using assms by (rule Validate_coherent)

text \<open>The first adopter's schedule: a flat five-rung ladder under a 25-minute bound.\<close>

definition adopter_schedule :: schedule where
  "adopter_schedule = zero_schedule\<lparr>scServerBackOff := replicate 5 (5 * minute), scMaxDeliver := 6,
     scAckWait := 5 * minute, scCaptureReserve := 1, scMaxTimeToDeadLetter := 25 * minute,
     scRecoverBy := 4, scFloorAge := 20 * minute\<rparr>"

theorem Validate_iff_coherent_witness:
  "representable adopter_schedule \<and> Validate adopter_schedule = [] \<and> coherent adopter_schedule"
proof -
  have r: "representable adopter_schedule" by code_simp
  have "Validate adopter_schedule = []" by code_simp
  with r Validate_iff_coherent [OF r] show ?thesis by blast
qed

section \<open>The server's ladder\<close>

text \<open>The ladder a durable really serves: the configured rungs, the last one repeated for as long as
  deliveries remain.\<close>

definition ladder_total :: "duration list \<Rightarrow> nat \<Rightarrow> int" where
  "ladder_total rungs k = sum_list (take k rungs) + int (k - length rungs) * last rungs"

lemma ladder_total_Suc:
  assumes "rungs \<noteq> []"
  shows "ladder_total rungs (Suc k) = ladder_total rungs k + rungs ! min k (length rungs - 1)"
proof (cases "k < length rungs")
  case True
  then have "min k (length rungs - 1) = k" by simp
  then show ?thesis using True by (simp add: ladder_total_def take_Suc_conv_app_nth Suc_le_eq)
next
  case False
  then have "min k (length rungs - 1) = length rungs - 1" "Suc k - length rungs = Suc (k - length rungs)"
    by simp_all
  then show ?thesis
    using False assms by (simp add: ladder_total_def last_conv_nth algebra_simps)
qed

lemma exact_total_server:
  assumes "scServerBackOff s \<noteq> []"
  shows "exact_total s (int k + 1) = ladder_total (scServerBackOff s) k"
proof (induction k)
  case 0
  show ?case by (simp add: exact_total_def ladder_total_def)
next
  case (Suc k)
  have "[2..int (Suc k) + 1] = [2..int k + 1] @ [int k + 2]"
    by (simp add: upto_rec2 add.commute)
  moreover have "nat (min (int k) (int (length (scServerBackOff s)) - 1)) = min k (length (scServerBackOff s) - 1)"
    using assms by (cases "scServerBackOff s") auto
  then have "RungBefore s (int k + 2) = scServerBackOff s ! min k (length (scServerBackOff s) - 1)"
    using assms by (simp add: RungBefore_def)
  ultimately have "exact_total s (int (Suc k) + 1) =
      exact_total s (int k + 1) + scServerBackOff s ! min k (length (scServerBackOff s) - 1)"
    by (simp add: exact_total_def)
  then show ?case by (simp add: Suc.IH ladder_total_Suc [OF assms])
qed

text \<open>
  On a durable with a server ladder, the wait \<open>CumulativeTo\<close> reports for delivery \<open>n\<close> is the sum
  of the first \<open>n - 1\<close> rungs with the last rung repeated once the list runs out: a short list is
  not a short ladder.
\<close>

theorem CumulativeTo_server_ladder:
  assumes "scServerBackOff s \<noteq> []" "\<forall>d \<in> set (scServerBackOff s). 0 \<le> d" "1 \<le> n"
    and "ladder_total (scServerBackOff s) (nat (n - 1)) \<le> maxInt64"
  shows "CumulativeTo s n = ladder_total (scServerBackOff s) (nat (n - 1))"
proof -
  have "nat (min (i - 2) (int (length (scServerBackOff s)) - 1)) < length (scServerBackOff s)" for i
    using assms(1) by (cases "scServerBackOff s") (auto simp: min_def nat_less_iff)
  then have "\<forall>i. 0 \<le> RungBefore s i"
    using assms(1,2) by (simp add: RungBefore_def)
  then show ?thesis
    using exact_total_server [OF assms(1), of "nat (n - 1)"] assms(3,4)
    by (simp add: CumulativeTo_exact)
qed

theorem CumulativeTo_server_ladder_witness:
  "CumulativeTo (zero_schedule\<lparr>scServerBackOff := [5 * minute, 10 * minute, hour]\<rparr>) 6
     = 15 * minute + 3 * hour"
  using CumulativeTo_server_ladder [of "zero_schedule\<lparr>scServerBackOff := [5 * minute, 10 * minute, hour]\<rparr>" 6]
  by (simp add: ladder_total_def duration_units maxInt64_def)

definition overflowing_schedule :: schedule where
  "overflowing_schedule = zero_schedule\<lparr>scServerBackOff := [2 ^ 62], scMaxDeliver := 5,
     scCaptureReserve := 1, scMaxTimeToDeadLetter := hour\<rparr>"

text \<open>The sum is not guarded against overflow: a one-rung ladder of \<open>2 ^ 62\<close> nanoseconds (about 146
  years) served three times wraps to a negative duration, so a one-hour bound on it is accepted.\<close>

lemma overflowing_ladder_accepted:
  "Validate overflowing_schedule = [] \<and> \<not> coherent overflowing_schedule \<and>
   TimeToDeadLetter overflowing_schedule < 0 \<and>
   scMaxTimeToDeadLetter overflowing_schedule < exact_total overflowing_schedule 4"
proof -
  have v: "Validate overflowing_schedule = []" by code_simp
  have t: "TimeToDeadLetter overflowing_schedule < 0" by code_simp
  have e: "scMaxTimeToDeadLetter overflowing_schedule < exact_total overflowing_schedule 4" by code_simp
  have "\<not> keeps_bounds overflowing_schedule"
    using e by (simp add: keeps_bounds_def Let_def overflowing_schedule_def zero_schedule_def duration_units)
  then have "\<not> coherent overflowing_schedule"
    by (simp add: coherent_def overflowing_schedule_def)
  with v t e show ?thesis by blast
qed

section \<open>Time on the ladder\<close>

text \<open>The server's side of a schedule: \<open>arrives n\<close> is when the \<open>n\<close>-th delivery reaches the handler, and a
  delivery left alone is repeated no later than its rung after it.\<close>

definition redelivers_on_ladder :: "schedule \<Rightarrow> (int \<Rightarrow> time) \<Rightarrow> int \<Rightarrow> bool" where
  "redelivers_on_ladder s arrives d \<longleftrightarrow> (\<forall>n \<in> {1..<d}. arrives (n + 1) - arrives n \<le> RungBefore s (n + 1))"

lemma exact_total_step: "1 \<le> n \<Longrightarrow> exact_total s (n + 1) = exact_total s n + RungBefore s (n + 1)"
  by (simp add: exact_total_def upto_rec2)

lemma on_ladder_wait:
  assumes "redelivers_on_ladder s arrives d" "1 \<le> n" "n \<le> d"
  shows "arrives n - arrives 1 \<le> exact_total s n"
  using assms(2,3)
proof (induction n rule: int_ge_induct)
  case base
  then show ?case by (simp add: exact_total_def)
next
  case (step n)
  then have "arrives (n + 1) - arrives n \<le> RungBefore s (n + 1)"
    using assms(1) by (simp add: redelivers_on_ladder_def)
  then show ?case using step exact_total_step [of n s] by simp
qed

lemma retention_keeps_rungs [simp]: "RungBefore (s\<lparr>scStreamMaxAge := a\<rparr>) = RungBefore s"
  by (simp add: fun_eq_iff RungBefore_def Ladder_def)

lemma retention_keeps_ladder [simp]:
  "exact_total (s\<lparr>scStreamMaxAge := a\<rparr>) = exact_total s"
  "redelivers_on_ladder (s\<lparr>scStreamMaxAge := a\<rparr>) = redelivers_on_ladder s"
  by (simp_all add: fun_eq_iff exact_total_def redelivers_on_ladder_def)

text \<open>A coherent schedule keeps every delivery up to the dead-letter one inside the retention.\<close>

lemma coherent_in_retention:
  assumes "coherent s" "representable s" "0 < scMaxDeliver s" "0 < scStreamMaxAge s"
    and "redelivers_on_ladder s arrives d" "d = scMaxDeliver s - scCaptureReserve s" "1 \<le> n" "n \<le> d"
  shows "arrives n - arrives 1 < scStreamMaxAge s"
proof -
  have "well_structured s" using assms(1) by (simp add: coherent_def)
  then have "exact_total s n \<le> exact_total s d"
    using rungs_nonneg assms(2,8) by (intro exact_total_mono) auto
  moreover have "exact_total s d < scStreamMaxAge s"
    using assms(1,3,4,6) by (simp add: coherent_def keeps_bounds_def Let_def)
  ultimately show ?thesis using on_ladder_wait [OF assms(5,7,8)] by simp
qed

section \<open>The checks on the wrapped sum\<close>









end
