(* ===== verification/TraceContext.thy ===== *)
theory TraceContext
  imports JetMsg
begin

text \<open>
  \<open>natsmsg/tracecontext.go\<close>: the header carrier, \<open>Inject\<close>, \<open>ExtractHeader\<close>,
  \<open>StartConsumerSpan\<close> and \<open>ClampToInt64\<close>.

  The accessors of \<open>nats.Header\<close> are nats.go code: they are the parameter \<open>header_lib\<close>, with their
  documentation (case-sensitive map access; \<open>Get\<close> reads the first value, \<open>Set\<close> replaces them all)
  as \<open>header_laws\<close>, the contract of the locale \<open>nats_header\<close>. The OpenTelemetry propagator and
  tracer are the parameter \<open>otel_lib\<close>. \<open>text_map_carrier\<close> is the \<open>TextMapCarrier\<close> interface the
  propagator works through; \<open>HeaderCarrier\<close> provides it.
\<close>

section \<open>nats.Header\<close>

record header_lib =
  hGet :: "header \<Rightarrow> string \<Rightarrow> string"
  hSet :: "header \<Rightarrow> string \<Rightarrow> string \<Rightarrow> header"
  hValues :: "header \<Rightarrow> string \<Rightarrow> string list"

definition first_value :: "string list \<Rightarrow> string" where
  "first_value vs = (case vs of [] \<Rightarrow> [] | v # _ \<Rightarrow> v)"

definition header_laws :: "header_lib \<Rightarrow> bool" where
  "header_laws L \<longleftrightarrow>
     (\<forall>h k. hValues L h k = (case h k of None \<Rightarrow> [] | Some vs \<Rightarrow> vs)) \<and>
     (\<forall>h k. hGet L h k = first_value (case h k of None \<Rightarrow> [] | Some vs \<Rightarrow> vs)) \<and>
     (\<forall>h k v. hSet L h k v = h(k \<mapsto> [v]))"

locale nats_header =
  fixes L :: header_lib
  assumes laws: "header_laws L"
begin

lemma values_eq: "hValues L h k = (case h k of None \<Rightarrow> [] | Some vs \<Rightarrow> vs)"
  using laws by (simp add: header_laws_def)

lemma get_eq: "hGet L h k = first_value (case h k of None \<Rightarrow> [] | Some vs \<Rightarrow> vs)"
  using laws by (simp add: header_laws_def)

lemma set_eq: "hSet L h k v = h(k \<mapsto> [v])"
  using laws by (simp add: header_laws_def)

lemma get_set: "hGet L (hSet L h k v) k' = (if k' = k then v else hGet L h k')"
  by (simp add: get_eq set_eq first_value_def)

lemma get_empty: "hGet L Map.empty k = []"
  by (simp add: get_eq first_value_def)

lemma get_absent: "h k = None \<Longrightarrow> hGet L h k = []"
  by (simp add: get_eq first_value_def)

lemma get_cong: "h k = h' k \<Longrightarrow> hGet L h k = hGet L h' k"
  by (simp add: get_eq)

lemmas header_simps = get_set set_eq get_empty

end

text \<open>The accessors as their documentation describes them.\<close>

definition std_header_lib :: header_lib where
  "std_header_lib = \<lparr>
     hGet = (\<lambda>h k. first_value (case h k of None \<Rightarrow> [] | Some vs \<Rightarrow> vs)),
     hSet = (\<lambda>h k v. h(k \<mapsto> [v])),
     hValues = (\<lambda>h k. case h k of None \<Rightarrow> [] | Some vs \<Rightarrow> vs)\<rparr>"

interpretation stdheader: nats_header std_header_lib
  by unfold_locales (simp add: header_laws_def std_header_lib_def)

section \<open>The carrier\<close>

definition HeaderCarrier_Get :: "header_lib \<Rightarrow> header \<Rightarrow> string \<Rightarrow> string" where
  "HeaderCarrier_Get L c key = (case hValues L c key of [] \<Rightarrow> [] | v # _ \<Rightarrow> v)"

definition HeaderCarrier_Set :: "header_lib \<Rightarrow> header \<Rightarrow> string \<Rightarrow> string \<Rightarrow> header" where
  "HeaderCarrier_Set L c key v = hSet L c key v"

definition HeaderCarrier_Values :: "header_lib \<Rightarrow> header \<Rightarrow> string \<Rightarrow> string list" where
  "HeaderCarrier_Values L c key = hValues L c key"

text \<open>The keys, which the code lists in the map's unspecified order.\<close>

definition HeaderCarrier_Keys :: "header \<Rightarrow> string set" where
  "HeaderCarrier_Keys c = dom c"

text \<open>The contract of a carrier, and what a propagator that only calls \<open>Set\<close> leaves behind.\<close>

locale text_map_carrier =
  fixes get :: "'c \<Rightarrow> string \<Rightarrow> string"
    and set1 :: "'c \<Rightarrow> string \<Rightarrow> string \<Rightarrow> 'c"
    and vals :: "'c \<Rightarrow> string \<Rightarrow> string list"
    and keys :: "'c \<Rightarrow> string set"
  assumes vals_set: "vals (set1 c k v) k' = (if k' = k then [v] else vals c k')"
    and get_vals: "get c k = first_value (vals c k)"
    and keys_set: "keys (set1 c k v) = insert k (keys c)"
begin

lemma vals_inject:
  "vals (foldl (\<lambda>c (k, v). set1 c k v) c kvs) k =
     (case map_of (rev kvs) k of Some v \<Rightarrow> [v] | None \<Rightarrow> vals c k)"
  by (induction kvs arbitrary: c) (auto simp: vals_set map_add_def split: option.splits)

lemma get_inject:
  "get (foldl (\<lambda>c (k, v). set1 c k v) c kvs) k =
     (case map_of (rev kvs) k of Some v \<Rightarrow> v | None \<Rightarrow> get c k)"
  by (simp add: get_vals vals_inject first_value_def split: option.splits)

lemma keys_inject:
  "keys (foldl (\<lambda>c (k, v). set1 c k v) c kvs) = keys c \<union> fst ` set kvs"
  by (induction kvs arbitrary: c) (auto simp: keys_set)

end

sublocale nats_header \<subseteq> text_map_carrier
    "HeaderCarrier_Get L" "HeaderCarrier_Set L" "HeaderCarrier_Values L" HeaderCarrier_Keys
  by unfold_locales
    (auto simp: HeaderCarrier_Get_def HeaderCarrier_Set_def HeaderCarrier_Values_def
      HeaderCarrier_Keys_def values_eq set_eq first_value_def)

section \<open>Inject and Extract\<close>

text \<open>
  \<open>otInject c\<close> is the sequence of \<open>Set\<close> calls the configured propagator makes for context \<open>c\<close>;
  \<open>otExtract\<close> builds a context from what it reads through the carrier; \<open>otStart\<close> is the tracer:
  it opens a span and returns the context that carries it.
\<close>

datatype span_attr = AttrString string string | AttrInt64 string int | AttrBool string bool

datatype span_kind = SpanKindProducer | SpanKindConsumer

record span_start =
  spName :: string
  spKind :: span_kind
  spAttrs :: "span_attr list"

record otel_lib =
  otInject :: "ctx \<Rightarrow> (string \<times> string) list"
  otExtract :: "ctx \<Rightarrow> (string \<Rightarrow> string) \<Rightarrow> (string \<Rightarrow> string list) \<Rightarrow> string set \<Rightarrow> ctx"
  otStart :: "ctx \<Rightarrow> span_start \<Rightarrow> ctx"

definition Inject :: "header_lib \<Rightarrow> otel_lib \<Rightarrow> ctx \<Rightarrow> nats_msg \<Rightarrow> nats_msg" where
  "Inject L ot c m =
     (let h = (case nmHeader m of None \<Rightarrow> Map.empty | Some h \<Rightarrow> h)
      in m\<lparr>nmHeader := Some (foldl (\<lambda>h (k, v). HeaderCarrier_Set L h k v) h (otInject ot c))\<rparr>)"

definition ExtractHeader :: "header_lib \<Rightarrow> otel_lib \<Rightarrow> ctx \<Rightarrow> header option \<Rightarrow> ctx" where
  "ExtractHeader L ot c h = (case h of None \<Rightarrow> c
     | Some h' \<Rightarrow> otExtract ot c (HeaderCarrier_Get L h') (HeaderCarrier_Values L h') (HeaderCarrier_Keys h'))"

definition Extract :: "header_lib \<Rightarrow> otel_lib \<Rightarrow> ctx \<Rightarrow> nats_msg \<Rightarrow> ctx" where
  "Extract L ot c m = ExtractHeader L ot c (nmHeader m)"

definition StartConsumerSpan ::
  "header_lib \<Rightarrow> otel_lib \<Rightarrow> ctx \<Rightarrow> jmsg \<Rightarrow> string \<Rightarrow> span_attr list \<Rightarrow> ctx \<times> span_start" where
  "StartConsumerSpan L ot c m name attrs =
     (let c1 = ExtractHeader L ot c (msgHeaders m);
          base = [AttrString ''messaging.system'' ''nats'',
                  AttrString ''messaging.destination.name'' (msgSubject m)] @ attrs;
          sp = \<lparr>spName = name, spKind = SpanKindConsumer, spAttrs = base\<rparr>
      in (otStart ot c1 sp, sp))"

definition ClampToInt64 :: "uint64 \<Rightarrow> int" where
  "ClampToInt64 v = (if word_of_int maxInt64 < v then maxInt64 else sint v)"

context nats_header
begin

lemma Inject_header:
  "nmHeader (Inject L ot c m) = Some h \<Longrightarrow> HeaderCarrier_Values L h k =
     (case map_of (rev (otInject ot c)) k of
        Some v \<Rightarrow> [v] | None \<Rightarrow> HeaderCarrier_Values L (header_of (nmHeader m)) k)"
  by (auto simp: Inject_def Let_def vals_inject simp flip: header_of_def)

lemma Inject_keys:
  "nmHeader (Inject L ot c m) = Some h \<Longrightarrow>
     HeaderCarrier_Keys h = HeaderCarrier_Keys (header_of (nmHeader m)) \<union> fst ` set (otInject ot c)"
  by (simp add: Inject_def Let_def keys_inject flip: header_of_def)
    (use keys_inject in blast)

end

lemma Inject_frame [simp]:
  "nmSubject (Inject L ot c m) = nmSubject m" "nmData (Inject L ot c m) = nmData m"
  "nmHeader (Inject L ot c m) \<noteq> None"
  by (simp_all add: Inject_def Let_def)

text \<open>
  C40. Trace propagation round trip: after \<open>Inject\<close> the outgoing message has a header map in which
  every key the propagator set reads back, through the carrier a consumer extracts with, as the
  last value set for it, and every other header keeps all its values; subject and payload are
  untouched.
\<close>

theorem Inject_carries:
  assumes "header_laws L"
  shows "\<exists>h. nmHeader (Inject L ot c m) = Some h \<and>
    (\<forall>k. HeaderCarrier_Values L h k =
       (case map_of (rev (otInject ot c)) k of
          Some v \<Rightarrow> [v] | None \<Rightarrow> HeaderCarrier_Values L (header_of (nmHeader m)) k)) \<and>
    HeaderCarrier_Keys h = HeaderCarrier_Keys (header_of (nmHeader m)) \<union> fst ` set (otInject ot c) \<and>
    nmSubject (Inject L ot c m) = nmSubject m \<and> nmData (Inject L ot c m) = nmData m"
proof -
  note N = nats_header.intro [OF assms]
  obtain h where h: "nmHeader (Inject L ot c m) = Some h"
    using Inject_frame(3) by blast
  show ?thesis
    using nats_header.Inject_header [OF N h] nats_header.Inject_keys [OF N h] h by auto
qed

definition sample_otel :: otel_lib where
  "sample_otel = \<lparr>otInject = (\<lambda>c. [(''traceparent'', ''00-a-b-01'')]),
     otExtract = (\<lambda>c get vals keys. c\<lparr>ctxValues := (''traceparent'', get ''traceparent'') # ctxValues c\<rparr>),
     otStart = (\<lambda>c s. c)\<rparr>"

theorem Inject_carries_witness:
  "\<exists>h. nmHeader (Inject std_header_lib sample_otel background
          \<lparr>nmSubject = ''a'', nmData = [], nmHeader = None\<rparr>) = Some h \<and>
       HeaderCarrier_Values std_header_lib h ''traceparent'' = [''00-a-b-01'']"
  using Inject_carries [OF stdheader.laws, of sample_otel background
      "\<lparr>nmSubject = ''a'', nmData = [], nmHeader = None\<rparr>"]
  by (auto simp: sample_otel_def)

text \<open>
  \<open>ClampToInt64\<close> saturates: the attribute is the sequence number itself while it fits a signed
  64-bit integer, the largest such integer otherwise, and never negative.
\<close>

theorem ClampToInt64_saturates:
  "ClampToInt64 v = min (uint v) maxInt64 \<and> 0 \<le> ClampToInt64 v"
proof (cases "word_of_int maxInt64 < v")
  case True
  then have "maxInt64 < uint v" by (simp add: word_less_def maxInt64_def)
  with True show ?thesis by (simp add: ClampToInt64_def maxInt64_def)
next
  case False
  then have le: "uint v \<le> maxInt64" by (simp add: word_less_def maxInt64_def)
  then have "sint v = uint v"
    by (simp add: sint_uint signed_take_bit_int_eq_self_iff maxInt64_def)
      (rule order_trans [of _ 0], simp_all)
  with False le show ?thesis by (simp add: ClampToInt64_def)
qed

end
