(* ===== verification/DeadLetterCapture.thy ===== *)
theory DeadLetterCapture
  imports TraceContext Backoff
begin

text \<open>
  \<open>natsmsg/deadletter.go\<close>: the dead-letter capture. \<open>capture_headers\<close> is the header block
  \<open>DeadLetter\<close> builds, step by step; \<open>DeadLetter\<close> is the whole function, its single publish
  recorded in the trace; \<open>SubjectToken\<close> sanitises a reason. The lemmas show the header policy (a
  closed set of provenance keys, everything of the application's verbatim), that the origin block
  is write-once over any chain of captures, and what the publish is bounded by.
\<close>

section \<open>Constants\<close>

definition dlqPublishTimeout :: duration where
  "dlqPublishTimeout = 15 * second"

definition DLQReasonHeader :: string where "DLQReasonHeader = ''Nats-Dlq-Reason''"

definition DLQDeliveredHeader :: string where "DLQDeliveredHeader = ''Nats-Dlq-Delivered''"

definition DLQHopsHeader :: string where "DLQHopsHeader = ''Nats-Dlq-Hops''"

definition DLQOriginHeader :: string where "DLQOriginHeader = ''Nats-Dlq-Origin-Subject''"

definition DLQStreamSeqHeader :: string where "DLQStreamSeqHeader = ''Nats-Dlq-Stream-Seq''"

definition DLQOriginStreamHeader :: string where "DLQOriginStreamHeader = ''Nats-Dlq-Origin-Stream''"

definition DLQOriginDomainHeader :: string where "DLQOriginDomainHeader = ''Nats-Dlq-Origin-Domain''"

definition DLQOriginTimestampHeader :: string where
  "DLQOriginTimestampHeader = ''Nats-Dlq-Origin-Timestamp''"

definition DLQOriginMsgIDHeader :: string where "DLQOriginMsgIDHeader = ''Nats-Dlq-Origin-Msg-Id''"

definition DLQOriginRecordedHeader :: string where
  "DLQOriginRecordedHeader = ''Nats-Dlq-Origin-Recorded''"

definition natsHeaderPrefix :: string where "natsHeaderPrefix = ''Nats-''"

text \<open>The name of the broker's dedupe header, a constant of nats.go.\<close>

definition MsgIDHeader :: string where "MsgIDHeader = ''Nats-Msg-Id''"

lemmas dlq_header_names = DLQReasonHeader_def DLQDeliveredHeader_def DLQHopsHeader_def
  DLQOriginHeader_def DLQStreamSeqHeader_def DLQOriginStreamHeader_def DLQOriginDomainHeader_def
  DLQOriginTimestampHeader_def DLQOriginMsgIDHeader_def DLQOriginRecordedHeader_def

definition dlqCarriedProvenance :: "string list" where
  "dlqCarriedProvenance = [DLQOriginRecordedHeader, DLQOriginHeader, DLQStreamSeqHeader,
     DLQOriginStreamHeader, DLQOriginDomainHeader, DLQOriginTimestampHeader, DLQOriginMsgIDHeader]"

text \<open>The keys a capture authors itself, afresh on every hop.\<close>

definition dlqPerHop :: "string list" where
  "dlqPerHop = [DLQReasonHeader, DLQHopsHeader, DLQDeliveredHeader]"

section \<open>RFC 3339 with nanoseconds\<close>

text \<open>\<open>t.UTC().Format(time.RFC3339Nano)\<close> and \<open>t.IsZero()\<close> for an instant counted in nanoseconds
  since the Unix epoch; the date is the proleptic Gregorian one.\<close>

definition civil_from_days :: "int \<Rightarrow> int \<times> int \<times> int" where
  "civil_from_days days =
     (let z = days + 719468;
          era = z div 146097;
          doe = z mod 146097;
          yoe = (doe - doe div 1460 + doe div 36524 - doe div 146096) div 365;
          doy = doe - (365 * yoe + yoe div 4 - yoe div 100);
          mp = (5 * doy + 2) div 153;
          d = doy - (153 * mp + 2) div 5 + 1;
          mo = (if mp < 10 then mp + 3 else mp - 9);
          y = yoe + era * 400
      in (if mo \<le> 2 then y + 1 else y, mo, d))"

definition pad_int :: "nat \<Rightarrow> int \<Rightarrow> string" where
  "pad_int w i = (let s = utoa (nat \<bar>i\<bar>)
     in (if i < 0 then ''-'' else []) @ replicate (w - length s) (CHR ''0'') @ s)"

definition fraction :: "int \<Rightarrow> string" where
  "fraction ns = (if ns = 0 then []
     else CHR ''.'' # rev (dropWhile (\<lambda>c. c = CHR ''0'') (rev (pad_int 9 ns))))"

definition rfc3339nano :: "time \<Rightarrow> string" where
  "rfc3339nano t =
     (let secs = t div 1000000000; ns = t mod 1000000000;
          days = secs div 86400; sod = secs mod 86400;
          (y, mo, d) = civil_from_days days
      in pad_int 4 y @ ''-'' @ pad_int 2 mo @ ''-'' @ pad_int 2 d @ ''T'' @
         pad_int 2 (sod div 3600) @ '':'' @ pad_int 2 (sod div 60 mod 60) @ '':'' @
         pad_int 2 (sod mod 60) @ fraction ns @ ''Z'')"

definition time_is_zero :: "time \<Rightarrow> bool" where
  "time_is_zero t \<longleftrightarrow> t = - 62135596800 * 1000000000"

lemma rfc3339nano_nonempty [simp]: "rfc3339nano t \<noteq> []"
  by (simp add: rfc3339nano_def Let_def split: prod.splits)

section \<open>The header policy\<close>

definition hasPrefixFold :: "string \<Rightarrow> string \<Rightarrow> bool" where
  "hasPrefixFold s pre \<longleftrightarrow> length pre \<le> length s \<and> equal_fold (take (length pre) s) pre"

definition keepsHeaderOnCapture :: "string \<Rightarrow> bool" where
  "keepsHeaderOnCapture key \<longleftrightarrow> \<not> hasPrefixFold key natsHeaderPrefix"

definition dlqHops :: "header_lib \<Rightarrow> header \<Rightarrow> int" where
  "dlqHops L src = (case atoi (hGet L src DLQHopsHeader) of
     None \<Rightarrow> 0 | Some n \<Rightarrow> if n < 0 then 0 else n)"

text \<open>The copy loop: every key outside the reserved namespace, with its values.\<close>

definition filtered_copy :: "header \<Rightarrow> header" where
  "filtered_copy src = (\<lambda>k. if keepsHeaderOnCapture k then src k else None)"

text \<open>The body of both branches: \<open>Set\<close> when the value is not empty.\<close>

definition record_nonempty :: "header_lib \<Rightarrow> header \<Rightarrow> string \<times> string \<Rightarrow> header" where
  "record_nonempty L hdr kv = (if snd kv \<noteq> [] then hSet L hdr (fst kv) (snd kv) else hdr)"

definition carried :: "header_lib \<Rightarrow> header \<Rightarrow> (string \<times> string) list" where
  "carried L src = map (\<lambda>h. (h, hGet L src h)) dlqCarriedProvenance"

definition first_origin :: "header_lib \<Rightarrow> jmsg \<Rightarrow> header \<Rightarrow> (string \<times> string) list" where
  "first_origin L m src =
     [(DLQOriginRecordedHeader, ''1''),
      (DLQOriginHeader, msgSubject m),
      (DLQOriginMsgIDHeader, hGet L src MsgIDHeader)] @
     (case meta_of m of None \<Rightarrow> []
      | Some md \<Rightarrow>
          [(DLQStreamSeqHeader, utoa (unat (mdStreamSeq md))),
           (DLQOriginStreamHeader, mdStream md),
           (DLQOriginDomainHeader, mdDomain md)] @
          (if time_is_zero (mdTimestamp md) then []
           else [(DLQOriginTimestampHeader, rfc3339nano (mdTimestamp md))]))"

definition capture_headers :: "header_lib \<Rightarrow> jmsg \<Rightarrow> string \<Rightarrow> header" where
  "capture_headers L m reason =
     (let src = header_of (msgHeaders m);
          hdr0 = filtered_copy src;
          origin = (if hGet L src DLQOriginRecordedHeader \<noteq> [] then carried L src
                    else first_origin L m src);
          hdr1 = foldl (record_nonempty L) hdr0 origin;
          hdr2 = hSet L hdr1 DLQReasonHeader reason;
          hdr3 = hSet L hdr2 DLQHopsHeader (itoa (wrap64 (dlqHops L src + 1)))
      in case meta_of m of None \<Rightarrow> hdr3
         | Some md \<Rightarrow> hSet L hdr3 DLQDeliveredHeader (utoa (unat (mdNumDelivered md))))"

definition DeadLetter ::
  "header_lib \<Rightarrow> ctx \<Rightarrow> publisher \<Rightarrow> string \<Rightarrow> jmsg \<Rightarrow> string \<Rightarrow> goerr option \<times> msg_call list" where
  "DeadLetter L c pub dlqSubject m reason =
     (let out = \<lparr>nmSubject = dlqSubject, nmData = msgData m,
                 nmHeader = Some (capture_headers L m reason)\<rparr>;
          pubCtx = withTimeout (withoutCancel c) dlqPublishTimeout
      in (case pub pubCtx out of
            Inl e \<Rightarrow> Some (Errorf (''dead-letter publish to '' @ dlqSubject) e)
          | Inr ack \<Rightarrow> None,
          [CallPublish pubCtx out]))"

section \<open>SubjectToken\<close>

definition token_char :: "char \<Rightarrow> char" where
  "token_char c =
     (let n = (of_char c :: nat) in
      if (97 \<le> n \<and> n \<le> 122) \<or> (48 \<le> n \<and> n \<le> 57) \<or> c = CHR ''_'' \<or> c = CHR ''-'' then c
      else if 65 \<le> n \<and> n \<le> 90 then char_of (n - 65 + 97)
      else CHR ''_'')"

definition SubjectToken :: "string \<Rightarrow> string" where
  "SubjectToken s = (let b = map token_char s in if b = [] then ''unknown'' else b)"

section \<open>The captured header block\<close>

lemma provenance_keys_distinct: "distinct (dlqCarriedProvenance @ dlqPerHop)"
  by code_simp

lemma provenance_keys_reserved: "k \<in> set (dlqCarriedProvenance @ dlqPerHop) \<Longrightarrow> \<not> keepsHeaderOnCapture k"
proof -
  have "list_all (\<lambda>k. \<not> keepsHeaderOnCapture k) (dlqCarriedProvenance @ dlqPerHop)"
    by code_simp
  then show "k \<in> set (dlqCarriedProvenance @ dlqPerHop) \<Longrightarrow> \<not> keepsHeaderOnCapture k"
    by (simp only: list_all_iff) blast
qed

lemma msg_id_reserved: "\<not> keepsHeaderOnCapture MsgIDHeader" "MsgIDHeader \<notin> set (dlqCarriedProvenance @ dlqPerHop)"
  by code_simp+

lemma per_hop_distinct [simp]:
  "DLQReasonHeader \<noteq> DLQHopsHeader" "DLQReasonHeader \<noteq> DLQDeliveredHeader" "DLQHopsHeader \<noteq> DLQDeliveredHeader"
  "DLQHopsHeader \<noteq> DLQReasonHeader" "DLQDeliveredHeader \<noteq> DLQReasonHeader" "DLQDeliveredHeader \<noteq> DLQHopsHeader"
  by (simp_all add: dlq_header_names)

lemma recorded_carried [simp]: "DLQOriginRecordedHeader \<in> set dlqCarriedProvenance"
  by (simp add: dlqCarriedProvenance_def)

lemma carried_not_per_hop:
  "k \<in> set dlqCarriedProvenance \<Longrightarrow> k \<noteq> DLQReasonHeader \<and> k \<noteq> DLQHopsHeader \<and> k \<noteq> DLQDeliveredHeader"
  using provenance_keys_distinct by (auto simp: dlqPerHop_def)

definition origin_block :: "header_lib \<Rightarrow> jmsg \<Rightarrow> (string \<times> string) list" where
  "origin_block L m = (let src = header_of (msgHeaders m) in
     if hGet L src DLQOriginRecordedHeader \<noteq> [] then carried L src else first_origin L m src)"

lemma first_origin_keys:
  "distinct (map fst (first_origin L m src))" "fst ` set (first_origin L m src) \<subseteq> set dlqCarriedProvenance"
  by (auto simp: first_origin_def dlqCarriedProvenance_def dlq_header_names split: option.splits)

lemma origin_block_keys:
  "distinct (map fst (origin_block L m))" "fst ` set (origin_block L m) \<subseteq> set dlqCarriedProvenance"
  using first_origin_keys provenance_keys_distinct
  by (auto simp: origin_block_def carried_def Let_def comp_def)

context nats_header
begin

lemma fold_record:
  "distinct (map fst kvs) \<Longrightarrow> foldl (record_nonempty L) h kvs k =
     (case map_of kvs k of Some v \<Rightarrow> if v \<noteq> [] then Some [v] else h k | None \<Rightarrow> h k)"
proof (induction kvs arbitrary: h)
  case (Cons kv kvs)
  then have "map_of kvs (fst kv) = None" by (simp add: map_of_eq_None_iff)
  with Cons show ?case
    by (cases kv) (auto simp: record_nonempty_def set_eq split: option.splits)
qed simp

lemma capture_at:
  "capture_headers L m reason k =
     (if k = DLQReasonHeader then Some [reason]
      else if k = DLQHopsHeader then Some [itoa (wrap64 (dlqHops L (header_of (msgHeaders m)) + 1))]
      else if k = DLQDeliveredHeader \<and> meta_of m \<noteq> None
        then Some [utoa (unat (mdNumDelivered (the (meta_of m))))]
      else case map_of (origin_block L m) k of
             Some v \<Rightarrow> if v \<noteq> [] then Some [v] else filtered_copy (header_of (msgHeaders m)) k
           | None \<Rightarrow> filtered_copy (header_of (msgHeaders m)) k)"
  unfolding capture_headers_def Let_def
  using fold_record [OF origin_block_keys(1) [of L m]]
  by (auto simp: set_eq origin_block_def Let_def split: option.splits)

lemma capture_origin:
  assumes "k \<in> set dlqCarriedProvenance"
  shows "hGet L (capture_headers L m reason) k =
    (case map_of (origin_block L m) k of Some v \<Rightarrow> v | None \<Rightarrow> [])"
  using carried_not_per_hop [OF assms] provenance_keys_reserved [of k] assms
  by (auto simp: get_eq capture_at filtered_copy_def first_value_def split: option.splits)

lemma capture_recorded:
  "hGet L (capture_headers L m reason) DLQOriginRecordedHeader \<noteq> []"
proof (cases "hGet L (header_of (msgHeaders m)) DLQOriginRecordedHeader = []")
  case True
  then show ?thesis
    by (simp add: capture_origin origin_block_def Let_def first_origin_def)
next
  case False
  then show ?thesis
    by (simp add: capture_origin origin_block_def Let_def carried_def dlqCarriedProvenance_def)
qed

lemma map_of_carried:
  "map_of (carried L src) k = (if k \<in> set dlqCarriedProvenance then Some (hGet L src k) else None)"
  by (simp add: carried_def map_of_map_restrict restrict_map_def)

lemma recapture_origin:
  assumes "k \<in> set dlqCarriedProvenance" "hGet L h DLQOriginRecordedHeader \<noteq> []"
  shows "hGet L (capture_headers L (m\<lparr>msgHeaders := Some h\<rparr>) reason) k = hGet L h k"
  using assms by (simp add: capture_origin origin_block_def Let_def map_of_carried)

lemma capture_hops:
  "0 \<le> dlqHops L src" "dlqHops L (capture_headers L m reason) =
     (let n = wrap64 (dlqHops L (header_of (msgHeaders m)) + 1) in if n < 0 then 0 else n)"
  by (simp_all add: dlqHops_def get_eq capture_at first_value_def Let_def split: option.splits)

end

text \<open>A chain of captures: each hop reads the previous copy back as a message of its own (subject,
  payload and metadata of the dead-letter stream) and captures it again.\<close>

fun capture_chain :: "header_lib \<Rightarrow> header \<Rightarrow> (jmsg \<times> string) list \<Rightarrow> header" where
  "capture_chain L h [] = h"
| "capture_chain L h ((m, reason) # hops) =
     capture_chain L (capture_headers L (m\<lparr>msgHeaders := Some h\<rparr>) reason) hops"

context nats_header
begin

lemma chain_origin:
  "hGet L h DLQOriginRecordedHeader \<noteq> [] \<Longrightarrow> k \<in> set dlqCarriedProvenance \<Longrightarrow>
     hGet L (capture_chain L h hops) k = hGet L h k"
proof (induction hops arbitrary: h)
  case (Cons hop hops)
  obtain m reason where hop: "hop = (m, reason)" by (cases hop)
  let ?h = "capture_headers L (m\<lparr>msgHeaders := Some h\<rparr>) reason"
  have "hGet L (capture_chain L ?h hops) k = hGet L ?h k"
    using Cons.IH [of ?h] Cons.prems(2) capture_recorded by simp
  then show ?case using recapture_origin [OF Cons.prems(2,1)] by (simp add: hop)
qed simp

lemma chain_hops:
  "dlqHops L h + int (length hops) \<le> maxInt64 \<Longrightarrow>
     dlqHops L (capture_chain L h hops) = dlqHops L h + int (length hops)"
proof (induction hops arbitrary: h)
  case (Cons hop hops)
  obtain m reason where hop: "hop = (m, reason)" by (cases hop)
  have "in_i64 (dlqHops L h + 1)"
    using Cons.prems capture_hops(1) [of h] by (simp add: in_i64_def maxInt64_def)
  then have "dlqHops L (capture_headers L (m\<lparr>msgHeaders := Some h\<rparr>) reason) = dlqHops L h + 1"
    using capture_hops(1) [of h] by (simp add: capture_hops(2) wrap64_id Let_def)
  with Cons show ?case by (simp add: hop)
qed simp

end

text \<open>The namespace the broker reads directives from: keys that begin with \<open>nats-\<close> in any case.\<close>

definition broker_namespace :: "string \<Rightarrow> bool" where
  "broker_namespace key \<longleftrightarrow> (\<exists>rest. map ascii_lower key = ''nats-'' @ rest)"

lemma begins_with: "(\<exists>rest. xs = p @ rest) \<longleftrightarrow> length p \<le> length xs \<and> take (length p) xs = p"
proof
  assume "length p \<le> length xs \<and> take (length p) xs = p"
  then have "xs = p @ drop (length p) xs" by (metis append_take_drop_id)
  then show "\<exists>rest. xs = p @ rest" by blast
qed auto

lemma keeps_outside: "keepsHeaderOnCapture key = (\<not> broker_namespace key)"
proof -
  have pre: "map ascii_lower natsHeaderPrefix = ''nats-''" "length natsHeaderPrefix = length ''nats-''"
    by code_simp+
  show ?thesis
    unfolding keepsHeaderOnCapture_def hasPrefixFold_def equal_fold_def broker_namespace_def begins_with
      pre take_map length_map ..
qed

text \<open>
  C12. The header policy of a capture. Every header outside the reserved namespace is on the copy with
  exactly the values it had; from inside the namespace only the closed set of provenance keys can
  be there, whatever the original carried, so no broker directive rides along, and in particular
  the copy has no dedupe id.
\<close>

theorem capture_header_policy:
  assumes "header_laws L"
  shows "(\<not> broker_namespace k \<longrightarrow> capture_headers L m reason k = header_of (msgHeaders m) k) \<and>
    (broker_namespace k \<and> k \<notin> set (dlqCarriedProvenance @ dlqPerHop) \<longrightarrow>
       capture_headers L m reason k = None) \<and>
    capture_headers L m reason MsgIDHeader = None"
proof -
  note N = nats_header.intro [OF assms]
  have per_hop: "k \<in> set dlqPerHop" if "k = DLQReasonHeader \<or> k = DLQHopsHeader \<or> k = DLQDeliveredHeader" for k
    using that by (auto simp: dlqPerHop_def)
  have outside: "capture_headers L m reason k = filtered_copy (header_of (msgHeaders m)) k"
    if "k \<notin> set (dlqCarriedProvenance @ dlqPerHop)" for k
  proof -
    have "map_of (origin_block L m) k = None"
      using origin_block_keys(2) [of L m] that by (auto simp: map_of_eq_None_iff)
    then show ?thesis
      using that per_hop [of k] by (auto simp: nats_header.capture_at [OF N])
  qed
  have reserved: "broker_namespace k = (\<not> keepsHeaderOnCapture k)" by (simp add: keeps_outside)
  show ?thesis
    unfolding reserved
  proof (intro conjI impI)
    assume "\<not> \<not> keepsHeaderOnCapture k"
    then have k: "keepsHeaderOnCapture k" by simp
    then have "k \<notin> set (dlqCarriedProvenance @ dlqPerHop)"
      using provenance_keys_reserved by blast
    then show "capture_headers L m reason k = header_of (msgHeaders m) k"
      using k outside [of k] by (simp add: filtered_copy_def)
  next
    assume "\<not> keepsHeaderOnCapture k \<and> k \<notin> set (dlqCarriedProvenance @ dlqPerHop)"
    then show "capture_headers L m reason k = None"
      using outside [of k] by (simp add: filtered_copy_def)
  next
    show "capture_headers L m reason MsgIDHeader = None"
      using outside [OF msg_id_reserved(2)] msg_id_reserved(1) by (simp add: filtered_copy_def)
  qed
qed

definition directive_header :: header where
  "directive_header = [''Nats-Expected-Stream'' \<mapsto> [''orders''], ''Nats-Dlq-Invented'' \<mapsto> [''x''],
     ''Nats-Msg-Id'' \<mapsto> [''id-1''], ''tenant'' \<mapsto> [''a'', ''b'']]"

theorem capture_header_policy_witness:
  "capture_headers std_header_lib ((sample_msg 9 5)\<lparr>msgHeaders := Some directive_header\<rparr>) ''why'' ''tenant''
     = Some [''a'', ''b''] \<and>
   capture_headers std_header_lib ((sample_msg 9 5)\<lparr>msgHeaders := Some directive_header\<rparr>) ''why'' MsgIDHeader
     = None"
proof -
  have "keepsHeaderOnCapture ''tenant''" by code_simp
  then have "\<not> broker_namespace ''tenant''" by (simp add: keeps_outside)
  then show ?thesis
    using capture_header_policy [OF stdheader.laws, of "''tenant''"
        "(sample_msg 9 5)\<lparr>msgHeaders := Some directive_header\<rparr>" "''why''"]
    by (simp add: directive_header_def)
qed

text \<open>
  C19. Provenance over any number of captures: once a copy carries the origin marker, every later
  capture of it, whatever subject, stream, sequence and reason that hop sees, leaves all the origin
  headers as they are (absences included), and the hop counter counts the captures.
\<close>

theorem provenance_write_once:
  assumes "header_laws L" and "h = capture_headers L m reason"
  shows "(\<forall>k \<in> set dlqCarriedProvenance. hGet L (capture_chain L h hops) k = hGet L h k) \<and>
    (dlqHops L h + int (length hops) \<le> maxInt64 \<longrightarrow>
       dlqHops L (capture_chain L h hops) = dlqHops L h + int (length hops))"
  using nats_header.chain_origin [OF nats_header.intro [OF assms(1)]]
    nats_header.chain_hops [OF nats_header.intro [OF assms(1)]]
    nats_header.capture_recorded [OF nats_header.intro [OF assms(1)], of m reason]
  by (simp add: assms(2))

theorem provenance_write_once_witness:
  "hGet std_header_lib (capture_chain std_header_lib
       (capture_headers std_header_lib (sample_msg 9 5) ''poison'')
       [(sample_msg 1 1\<lparr>msgSubject := ''orders.dlq''\<rparr>, ''replay failed'')]) DLQOriginHeader = ''orders.new''"
proof -
  have "hGet std_header_lib (capture_headers std_header_lib (sample_msg 9 5) ''poison'') DLQOriginHeader
          = ''orders.new''"
    by code_simp
  then show ?thesis
    using provenance_write_once [OF stdheader.laws refl, of "sample_msg 9 5" "''poison''"
        "[(sample_msg 1 1\<lparr>msgSubject := ''orders.dlq''\<rparr>, ''replay failed'')]"]
    by (simp add: dlqCarriedProvenance_def del: capture_chain.simps)
qed

lemma DeadLetter_trace:
  "\<exists>pubCtx out. snd (DeadLetter L c pub subj m reason) = [CallPublish pubCtx out] \<and>
     ctxErr pubCtx = None \<and> ctxTimeout pubCtx = Some (15 * second) \<and> ctxValues pubCtx = ctxValues c \<and>
     nmSubject out = subj \<and> nmData out = msgData m \<and>
     nmHeader out = Some (capture_headers L m reason) \<and>
     (fst (DeadLetter L c pub subj m reason) = None \<longleftrightarrow> (\<exists>ack. pub pubCtx out = Inr ack))"
proof -
  have "0 < dlqPublishTimeout" by (simp add: dlqPublishTimeout_def second_def)
  from detached_bound(1) [OF this] detached_bound(2) show ?thesis
    by (auto simp: DeadLetter_def Let_def dlqPublishTimeout_def second_def split: sum.splits)
qed

text \<open>
  C27. The capture publishes exactly one message, with the original's payload, on a context that has
  no cancellation of its caller's but all its values and is bounded by the capture's own timeout;
  it reports an error exactly when that publish fails, and it never touches the original.
\<close>

theorem DeadLetter_publishes_detached:
  "\<exists>pubCtx out. snd (DeadLetter L c pub subj m reason) = [CallPublish pubCtx out] \<and>
     ctxErr pubCtx = None \<and> ctxTimeout pubCtx = Some (15 * second) \<and> ctxValues pubCtx = ctxValues c \<and>
     nmSubject out = subj \<and> nmData out = msgData m \<and>
     nmHeader out = Some (capture_headers L m reason) \<and>
     (fst (DeadLetter L c pub subj m reason) = None \<longleftrightarrow> (\<exists>ack. pub pubCtx out = Inr ack))"
  by (rule DeadLetter_trace)

section \<open>Subject tokens\<close>

definition token_ok :: "char \<Rightarrow> bool" where
  "token_ok c = (let n = (of_char c :: nat) in
     (97 \<le> n \<and> n \<le> 122) \<or> (48 \<le> n \<and> n \<le> 57) \<or> c = CHR ''_'' \<or> c = CHR ''-'')"

lemma token_char_ok: "token_ok (token_char c)"
  by (auto simp: token_char_def token_ok_def Let_def take_bit_nat_def)

lemma token_char_fixed: "token_ok c \<Longrightarrow> token_char c = c"
  by (simp add: token_char_def token_ok_def Let_def)

text \<open>
  \<open>SubjectToken\<close> always yields one valid token: it is not empty, every character is a lower-case
  letter, a digit, an underscore or a hyphen (no dot, space or wildcard survives), it keeps the
  length of a non-empty input, and sanitising a token again changes nothing.
\<close>

theorem SubjectToken_valid:
  "SubjectToken s \<noteq> [] \<and> list_all token_ok (SubjectToken s) \<and>
   (s \<noteq> [] \<longrightarrow> length (SubjectToken s) = length s) \<and>
   SubjectToken (SubjectToken s) = SubjectToken s"
proof -
  have u: "list_all token_ok ''unknown''" by code_simp
  have ok: "list_all token_ok (SubjectToken s)"
    using u by (simp add: SubjectToken_def list_all_iff token_char_ok)
  have ne: "SubjectToken s \<noteq> []" by (simp add: SubjectToken_def)
  have "map token_char (SubjectToken s) = SubjectToken s"
    using ok by (intro map_idI) (simp add: token_char_fixed list_all_iff)
  then have "SubjectToken (SubjectToken s) = SubjectToken s"
    using ne by (simp add: SubjectToken_def [of "SubjectToken s"])
  then show ?thesis using ok ne by (auto simp: SubjectToken_def [of s])
qed

theorem SubjectToken_valid_witness:
  "SubjectToken ''Bad payload.*'' = ''bad_payload__'' \<and> list_all token_ok (SubjectToken ''Bad payload.*'')"
proof -
  have "SubjectToken ''Bad payload.*'' = ''bad_payload__''" by code_simp
  then show ?thesis using SubjectToken_valid [of "''Bad payload.*''"] by simp
qed

end
