(* ===== verification/Retry.thy ===== *)
theory Retry
  imports FloorMon Schedule DeadLetterCapture "HOL-Library.AList" "HOL-Library.Multiset"
begin

text \<open>
  \<open>jsconsumer/retry.go\<close>, first half: the configuration and state of a \<open>Retry\<close>, its constructor, the
  schedule it expects, and the bookkeeping of the circuit breaker, that is the failure clocks
  (\<open>noteFailure\<close>, \<open>forgetFailure\<close>, \<open>sweepFailures\<close>), the quarantine budget and the conjunction
  \<open>shouldQuarantine\<close>. Settlement itself is theory \<open>Settle\<close>.

  \<open>RetryConfig.Monitor\<close> is a pointer: a number, read through the heap \<open>mons\<close> of the caller. The
  \<open>failing\<close> map is an association list with distinct keys; where the code ranges over it, the
  iteration order is a parameter \<open>order\<close> of which only that it is a permutation is ever assumed.
\<close>

section \<open>Configuration and state\<close>

definition DefaultMinDeliveries :: int where
  "DefaultMinDeliveries = 2"

definition DefaultCaptureReserve :: int where
  "DefaultCaptureReserve = 1"

definition NoCaptureReserve :: int where
  "NoCaptureReserve = - 1"

definition dlqAckTimeout :: duration where
  "dlqAckTimeout = 15 * second"

definition maxTrackedFailures :: nat where
  "maxTrackedFailures = 4096"

text \<open>\<open>Outcome\<close> is a string; \<open>OutcomeNone\<close> is the empty one a fresh \<open>Settlement\<close> carries.\<close>

datatype retry_outcome =
    OutcomeNone
  | OutcomeRetried
  | OutcomeDeadLettered
  | OutcomeStranded
  | OutcomeUncertain

datatype cause =
    CauseNone
  | CauseFloorAge
  | CauseExhausted
  | CausePermanent
  | CauseShutdown

text \<open>The string a \<open>Cause\<close> is.\<close>

fun cause_string :: "cause \<Rightarrow> string" where
  "cause_string CauseNone = []"
| "cause_string CauseFloorAge = ''floor_age''"
| "cause_string CauseExhausted = ''max_deliver''"
| "cause_string CausePermanent = ''permanent''"
| "cause_string CauseShutdown = ''shutdown''"

record settlement =
  stOutcome :: retry_outcome
  stCause :: cause
  stDelivered :: int
  stFloor :: uint64
  stFloorAge :: duration
  stFailingFor :: duration
  stBreakerTripped :: bool
  stCaptured :: bool

text \<open>\<open>BreakerMode\<close> is an int with two named values.\<close>

definition BreakerObserve :: int where
  "BreakerObserve = 0"

definition BreakerEnforce :: int where
  "BreakerEnforce = 1"

definition BreakerMode_String :: "int \<Rightarrow> string" where
  "BreakerMode_String m = (if m = BreakerEnforce then ''enforce'' else ''observe'')"

record retry_config =
  rcMaxDeliver :: int
  rcMonitor :: "nat option"
  rcMinDeliveries :: int
  rcMaxTimeToDeadLetter :: duration
  rcRecoverBy :: int
  rcBreaker :: int
  rcCaptureReserve :: int
  rcDLQSubject :: string
  rcPublisher :: "publisher option"
  rcOnSettle :: bool
  rcName :: string
  rcLogger :: "logger option"

record failure_record =
  frFirst :: time
  frLast :: time

type_synonym failures = "(uint64 \<times> failure_record) list"

record retry =
  rtCfg :: retry_config
  rtFailureTTL :: duration
  rtName :: string
  rtLogger :: "logger option"
  rtMonitor :: "nat option"
  rtFailing :: failures
  rtQuarantined :: time
  rtQuarantinedFloor :: uint64
  rtHaveQuarantined :: bool

section \<open>Construction\<close>

datatype retry_error =
    PublisherRequired
  | DLQSubjectRequired
  | MaxDeliverNotPositive int
  | MinDeliveriesNegative int
  | BadCaptureReserve int
  | MinDeliveriesPastLadder int int int int
  | EnforceWithoutMonitor
  | BadBreaker int
  | RecoverByViolation violation

definition capture_reserve :: "int \<Rightarrow> int option" where
  "capture_reserve n = (if n = 0 then Some DefaultCaptureReserve
     else if n = NoCaptureReserve then Some 0
     else if n < 0 then None
     else Some n)"

text \<open>The \<open>RecoverBy\<close> checks \<open>NewRetry\<close> asks \<open>Schedule\<close> for: the first violation of that field.\<close>

definition recover_by_violation :: "retry_config \<Rightarrow> violation option" where
  "recover_by_violation cfg =
     find (\<lambda>v. vField v = ''RecoverBy'')
       (Validate (zero_schedule\<lparr>scMaxDeliver := rcMaxDeliver cfg,
                                scCaptureReserve := rcCaptureReserve cfg,
                                scRecoverBy := rcRecoverBy cfg\<rparr>))"

definition NewRetry :: "(nat \<Rightarrow> floor_monitor) \<Rightarrow> retry_config \<Rightarrow> retry_error + retry" where
  "NewRetry mons cfg0 =
     (if rcPublisher cfg0 = None then Inl PublisherRequired
      else if rcDLQSubject cfg0 = [] then Inl DLQSubjectRequired
      else if rcMaxDeliver cfg0 \<le> 0 then Inl (MaxDeliverNotPositive (rcMaxDeliver cfg0))
      else if rcMinDeliveries cfg0 < 0 then Inl (MinDeliveriesNegative (rcMinDeliveries cfg0))
      else let cfg1 = (if rcMinDeliveries cfg0 = 0 then cfg0\<lparr>rcMinDeliveries := DefaultMinDeliveries\<rparr> else cfg0)
      in case capture_reserve (rcCaptureReserve cfg1) of
        None \<Rightarrow> Inl (BadCaptureReserve (rcCaptureReserve cfg1))
      | Some reserve \<Rightarrow>
        let cfg2 = cfg1\<lparr>rcCaptureReserve := reserve\<rparr>;
            share = wrap64 (rcMaxDeliver cfg2 - rcCaptureReserve cfg2)
        in if share < rcMinDeliveries cfg2
             then Inl (MinDeliveriesPastLadder (rcMinDeliveries cfg2) share (rcMaxDeliver cfg2) (rcCaptureReserve cfg2))
           else if rcBreaker cfg2 = BreakerEnforce \<and> rcMonitor cfg2 = None then Inl EnforceWithoutMonitor
           else if rcBreaker cfg2 \<noteq> BreakerObserve \<and> rcBreaker cfg2 \<noteq> BreakerEnforce
             then Inl (BadBreaker (rcBreaker cfg2))
           else let cfg = (if rcRecoverBy cfg2 = 0 then cfg2\<lparr>rcRecoverBy := rcMinDeliveries cfg2\<rparr> else cfg2)
           in case recover_by_violation cfg of
             Some v \<Rightarrow> Inl (RecoverByViolation v)
           | None \<Rightarrow>
             Inr \<lparr>rtCfg = cfg,
                  rtFailureTTL = (case rcMonitor cfg of None \<Rightarrow> hour
                     | Some p \<Rightarrow> max hour (wrap64 (4 * FloorAge (mons p)))),
                  rtName = [], rtLogger = None, rtMonitor = rcMonitor cfg, rtFailing = [],
                  rtQuarantined = 0, rtQuarantinedFloor = 0, rtHaveQuarantined = False\<rparr>)"

definition expectations :: "(nat \<Rightarrow> floor_monitor) \<Rightarrow> retry \<Rightarrow> schedule" where
  "expectations mons r =
     (let s = zero_schedule\<lparr>scMaxDeliver := rcMaxDeliver (rtCfg r),
                            scCaptureReserve := rcCaptureReserve (rtCfg r),
                            scMaxTimeToDeadLetter := rcMaxTimeToDeadLetter (rtCfg r),
                            scRecoverBy := rcRecoverBy (rtCfg r)\<rparr>
      in case rtMonitor r of None \<Rightarrow> s | Some p \<Rightarrow> s\<lparr>scFloorAge := FloorAge (mons p)\<rparr>)"

definition Retry_MaxDeliver :: "retry \<Rightarrow> int" where
  "Retry_MaxDeliver r = rcMaxDeliver (rtCfg r)"

definition Retry_Monitor :: "retry \<Rightarrow> nat option" where
  "Retry_Monitor r = rcMonitor (rtCfg r)"

definition ladderSpent :: "retry \<Rightarrow> int \<Rightarrow> bool" where
  "ladderSpent r delivered \<longleftrightarrow>
     0 < delivered \<and> wrap64 (rcMaxDeliver (rtCfg r) - rcCaptureReserve (rtCfg r)) \<le> delivered"

definition brokerCapReached :: "retry \<Rightarrow> int \<Rightarrow> bool" where
  "brokerCapReached r delivered \<longleftrightarrow> 0 < delivered \<and> rcMaxDeliver (rtCfg r) \<le> delivered"

definition retry_attach :: "string \<Rightarrow> logger option \<Rightarrow> retry \<Rightarrow> retry" where
  "retry_attach name lg r =
     r\<lparr>rtName := firstNonEmpty (rcName (rtCfg r)) name,
       rtLogger := (if rcLogger (rtCfg r) \<noteq> None then rcLogger (rtCfg r) else lg)\<rparr>"

definition retry_log :: "retry \<Rightarrow> logger \<times> string" where
  "retry_log r =
     (case rtLogger r of
        Some l \<Rightarrow> l
      | None \<Rightarrow> (case rcLogger (rtCfg r) of Some l \<Rightarrow> l | None \<Rightarrow> DefaultLogger),
      if rtName r = [] then firstNonEmpty (rcName (rtCfg r)) ''jsconsumer'' else rtName r)"

section \<open>Failure clocks\<close>

definition expired :: "duration \<Rightarrow> time \<Rightarrow> uint64 \<times> failure_record \<Rightarrow> bool" where
  "expired ttl now entry \<longleftrightarrow> ttl < time_sub now (frLast (snd entry))"

definition sweepFailures :: "(failures \<Rightarrow> failures) \<Rightarrow> duration \<Rightarrow> time \<Rightarrow> failures \<Rightarrow> failures" where
  "sweepFailures order ttl now failing =
     (let live = filter (\<lambda>e. \<not> expired ttl now e) failing;
          target = maxTrackedFailures * 3 div 4
      in if length live \<le> target then live
         else let aged = sort_key (\<lambda>e. frLast (snd e)) (order live);
                  victims = map fst (take (length aged - target) aged)
              in filter (\<lambda>e. fst e \<notin> set victims) live)"

definition note_clock :: "(failures \<Rightarrow> failures) \<Rightarrow> duration \<Rightarrow> uint64 \<Rightarrow> time \<Rightarrow> failures \<Rightarrow> duration \<times> failures" where
  "note_clock order ttl sq now failing =
     (let rec1 = (case map_of failing sq of
                    None \<Rightarrow> \<lparr>frFirst = now, frLast = now\<rparr>
                  | Some r \<Rightarrow> r\<lparr>frLast := now\<rparr>);
          failing1 = AList.update sq rec1 failing;
          failing2 = (if maxTrackedFailures < length failing1
                      then sweepFailures order ttl now failing1 else failing1)
      in (time_sub now (frFirst rec1), failing2))"

definition noteFailure :: "(failures \<Rightarrow> failures) \<Rightarrow> uint64 \<Rightarrow> time \<Rightarrow> retry \<Rightarrow> duration \<times> retry" where
  "noteFailure order sq now r =
     (let (d, failing) = note_clock order (rtFailureTTL r) sq now (rtFailing r)
      in (d, r\<lparr>rtFailing := failing\<rparr>))"

definition forgetFailure :: "uint64 \<Rightarrow> retry \<Rightarrow> retry" where
  "forgetFailure sq r = r\<lparr>rtFailing := AList.delete sq (rtFailing r)\<rparr>"

section \<open>The quarantine budget and the conjunction\<close>

definition spendQuarantineBudget :: "uint64 \<Rightarrow> duration \<Rightarrow> time \<Rightarrow> retry \<Rightarrow> bool \<times> retry" where
  "spendQuarantineBudget fl window now r =
     (if \<not> rtHaveQuarantined r \<or> fl \<noteq> rtQuarantinedFloor r \<or> window \<le> time_sub now (rtQuarantined r)
      then (True, r\<lparr>rtHaveQuarantined := True, rtQuarantined := now, rtQuarantinedFloor := fl\<rparr>)
      else (False, r))"

definition shouldQuarantine ::
  "(nat \<Rightarrow> floor_monitor) \<Rightarrow> time \<Rightarrow> jmsg \<Rightarrow> int \<Rightarrow> duration \<Rightarrow> time \<Rightarrow> retry
     \<Rightarrow> (bool \<times> uint64 \<times> duration) \<times> retry" where
  "shouldQuarantine mons monNow msg delivered failingFor now r =
     (case rtMonitor r of
        None \<Rightarrow> ((False, 0, 0), r)
      | Some p \<Rightarrow>
        let (fl, age, st) = FloorStall (mons p) monNow in
        if \<not> st \<or> age < FloorAge (mons p) then ((False, fl, age), r)
        else case meta_of msg of
          None \<Rightarrow> ((False, fl, age), r)
        | Some meta \<Rightarrow>
          if mdStreamSeq meta \<le> fl then ((False, fl, age), r)
          else if delivered < rcMinDeliveries (rtCfg r) then ((False, fl, age), r)
          else if failingFor < FloorAge (mons p) then ((False, fl, age), r)
          else let (ok, r1) = spendQuarantineBudget fl (FloorAge (mons p)) now r
               in ((ok, fl, age), r1))"

definition streamSeq :: "jmsg \<Rightarrow> uint64" where
  "streamSeq msg = (case meta_of msg of Some meta \<Rightarrow> mdStreamSeq meta | None \<Rightarrow> 0)"

section \<open>What the constructor accepts\<close>

definition effective_min :: "retry_config \<Rightarrow> int" where
  "effective_min cfg = (if rcMinDeliveries cfg = 0 then DefaultMinDeliveries else rcMinDeliveries cfg)"

definition effective_reserve :: "retry_config \<Rightarrow> int" where
  "effective_reserve cfg = (if rcCaptureReserve cfg = 0 then DefaultCaptureReserve
     else if rcCaptureReserve cfg = NoCaptureReserve then 0 else rcCaptureReserve cfg)"

text \<open>The configurations that make sense, in unbounded arithmetic.\<close>

definition sensible :: "retry_config \<Rightarrow> bool" where
  "sensible cfg \<longleftrightarrow> rcPublisher cfg \<noteq> None \<and> rcDLQSubject cfg \<noteq> [] \<and> 0 < rcMaxDeliver cfg \<and>
     0 \<le> rcMinDeliveries cfg \<and> NoCaptureReserve \<le> rcCaptureReserve cfg \<and>
     effective_min cfg \<le> rcMaxDeliver cfg - effective_reserve cfg \<and>
     rcBreaker cfg \<in> {BreakerObserve, BreakerEnforce} \<and>
     (rcBreaker cfg = BreakerEnforce \<longrightarrow> rcMonitor cfg \<noteq> None) \<and>
     0 \<le> rcRecoverBy cfg \<and> rcRecoverBy cfg \<le> rcMaxDeliver cfg - effective_reserve cfg"

text \<open>The invariant of a \<open>Retry\<close>.\<close>

definition cfg_ok :: "retry_config \<Rightarrow> bool" where
  "cfg_ok cfg \<longleftrightarrow> rcPublisher cfg \<noteq> None \<and> rcDLQSubject cfg \<noteq> [] \<and> in_i64 (rcMaxDeliver cfg) \<and>
     0 < rcMinDeliveries cfg \<and> 0 \<le> rcCaptureReserve cfg \<and>
     rcMinDeliveries cfg \<le> rcMaxDeliver cfg - rcCaptureReserve cfg \<and>
     rcBreaker cfg \<in> {BreakerObserve, BreakerEnforce} \<and>
     (rcBreaker cfg = BreakerEnforce \<longrightarrow> rcMonitor cfg \<noteq> None) \<and>
     0 < rcRecoverBy cfg \<and> rcRecoverBy cfg \<le> rcMaxDeliver cfg - rcCaptureReserve cfg"

definition clocks_ok :: "failures \<Rightarrow> bool" where
  "clocks_ok failing \<longleftrightarrow> distinct (map fst failing) \<and> length failing \<le> maxTrackedFailures"

definition retry_ok :: "retry \<Rightarrow> bool" where
  "retry_ok r \<longleftrightarrow> cfg_ok (rtCfg r) \<and> rtMonitor r = rcMonitor (rtCfg r) \<and> hour \<le> rtFailureTTL r \<and>
     clocks_ok (rtFailing r)"

lemma structural_field: "v \<in> set (structural_checks s) \<Longrightarrow> vField v \<noteq> ''RecoverBy''"
  by (auto simp: structural_checks_def rung_checks_def viol_def Let_def split: if_splits list.splits)

lemma ladder_recover_by:
  "scFloorAge s = 0 \<Longrightarrow>
     (\<exists>v \<in> set (ladder_checks s). vField v = ''RecoverBy'') \<longleftrightarrow>
       scRecoverBy s < 0 \<or> DeadLetterDelivery s < scRecoverBy s"
  by (auto simp: ladder_checks_def viol_def Let_def)

lemma recover_by_violation_None:
  assumes "0 < rcMaxDeliver cfg" "1 \<le> wrap64 (rcMaxDeliver cfg - rcCaptureReserve cfg)"
  shows "recover_by_violation cfg = None \<longleftrightarrow>
     0 \<le> rcRecoverBy cfg \<and> rcRecoverBy cfg \<le> wrap64 (rcMaxDeliver cfg - rcCaptureReserve cfg)"
proof -
  let ?s = "zero_schedule\<lparr>scMaxDeliver := rcMaxDeliver cfg,
      scCaptureReserve := rcCaptureReserve cfg, scRecoverBy := rcRecoverBy cfg\<rparr>"
  have "scFloorAge ?s = 0" by (simp add: zero_schedule_def)
  note l = ladder_recover_by [OF this]
  have "recover_by_violation cfg = None \<longleftrightarrow>
      \<not> (\<exists>v \<in> set (structural_checks ?s @ ladder_checks ?s). vField v = ''RecoverBy'')"
    using assms by (auto simp: recover_by_violation_def find_None_iff Validate_def DeadLetterDelivery_def)
  also have "\<dots> \<longleftrightarrow> \<not> (\<exists>v \<in> set (ladder_checks ?s). vField v = ''RecoverBy'')"
    using structural_field [of _ ?s] by auto
  finally show ?thesis using l by (auto simp: DeadLetterDelivery_def)
qed

lemma capture_reserve_Some:
  "capture_reserve (rcCaptureReserve cfg) =
     (if NoCaptureReserve \<le> rcCaptureReserve cfg then Some (effective_reserve cfg) else None)"
  by (auto simp: capture_reserve_def effective_reserve_def NoCaptureReserve_def)

lemma effective_nonneg:
  "0 \<le> rcMinDeliveries cfg \<Longrightarrow> 0 < effective_min cfg"
  "NoCaptureReserve \<le> rcCaptureReserve cfg \<Longrightarrow> 0 \<le> effective_reserve cfg"
  by (auto simp: effective_min_def effective_reserve_def DefaultMinDeliveries_def
      DefaultCaptureReserve_def NoCaptureReserve_def)

lemma breaker_modes: "BreakerObserve \<noteq> BreakerEnforce"
  by (simp add: BreakerObserve_def BreakerEnforce_def)

text \<open>The defaults applied: the configuration a constructed \<open>Retry\<close> carries.\<close>

definition with_defaults :: "retry_config \<Rightarrow> retry_config" where
  "with_defaults cfg = cfg\<lparr>rcMinDeliveries := effective_min cfg, rcCaptureReserve := effective_reserve cfg,
     rcRecoverBy := (if rcRecoverBy cfg = 0 then effective_min cfg else rcRecoverBy cfg)\<rparr>"

definition fresh_retry :: "(nat \<Rightarrow> floor_monitor) \<Rightarrow> retry_config \<Rightarrow> retry" where
  "fresh_retry mons cfg = \<lparr>rtCfg = cfg,
     rtFailureTTL = (case rcMonitor cfg of None \<Rightarrow> hour
       | Some p \<Rightarrow> max hour (wrap64 (4 * FloorAge (mons p)))),
     rtName = [], rtLogger = None, rtMonitor = rcMonitor cfg, rtFailing = [],
     rtQuarantined = 0, rtQuarantinedFloor = 0, rtHaveQuarantined = False\<rparr>"

lemma share_in_range:
  assumes "in_i64 (rcMaxDeliver cfg)" "in_i64 (rcCaptureReserve cfg)" "0 < rcMaxDeliver cfg"
    "NoCaptureReserve \<le> rcCaptureReserve cfg"
  shows "wrap64 (rcMaxDeliver cfg - effective_reserve cfg) = rcMaxDeliver cfg - effective_reserve cfg"
  using assms by (intro wrap64_id)
    (auto simp: in_i64_def effective_reserve_def DefaultCaptureReserve_def NoCaptureReserve_def)

lemma effective_update [simp]:
  "effective_reserve (cfg\<lparr>rcMinDeliveries := n\<rparr>) = effective_reserve cfg"
  by (simp add: effective_reserve_def)

lemma NewRetry_Inr:
  assumes "in_i64 (rcMaxDeliver cfg)" "in_i64 (rcCaptureReserve cfg)"
  shows "NewRetry mons cfg = Inr r \<longleftrightarrow> sensible cfg \<and> r = fresh_retry mons (with_defaults cfg)"
proof (cases "rcPublisher cfg \<noteq> None \<and> rcDLQSubject cfg \<noteq> [] \<and> 0 < rcMaxDeliver cfg \<and>
     0 \<le> rcMinDeliveries cfg \<and> NoCaptureReserve \<le> rcCaptureReserve cfg \<and>
     effective_min cfg \<le> rcMaxDeliver cfg - effective_reserve cfg")
  case False
  have defaulted: "(if rcMinDeliveries cfg = 0 then cfg\<lparr>rcMinDeliveries := DefaultMinDeliveries\<rparr> else cfg)
      = cfg\<lparr>rcMinDeliveries := effective_min cfg\<rparr>"
    by (simp add: effective_min_def)
  have "NewRetry mons cfg \<noteq> Inr r"
    using False assms share_in_range [of cfg]
    by (simp add: NewRetry_def Let_def defaulted capture_reserve_Some) auto
  with False show ?thesis by (auto simp: sensible_def)
next
  case True
  let ?cfg2 = "cfg\<lparr>rcMinDeliveries := effective_min cfg, rcCaptureReserve := effective_reserve cfg\<rparr>"
  have share: "wrap64 (rcMaxDeliver cfg - effective_reserve cfg) = rcMaxDeliver cfg - effective_reserve cfg"
    using True assms by (intro share_in_range) auto
  have pos: "0 < effective_min cfg" "1 \<le> rcMaxDeliver cfg - effective_reserve cfg"
    using True effective_nonneg(1) [of cfg] by auto
  have rb: "recover_by_violation (with_defaults cfg) = None \<longleftrightarrow>
      0 \<le> rcRecoverBy cfg \<and> rcRecoverBy cfg \<le> rcMaxDeliver cfg - effective_reserve cfg"
    using recover_by_violation_None [of "with_defaults cfg"] True pos
    by (auto simp: with_defaults_def share)
  have defaulted: "(if rcMinDeliveries cfg = 0 then cfg\<lparr>rcMinDeliveries := DefaultMinDeliveries\<rparr> else cfg)
      = cfg\<lparr>rcMinDeliveries := effective_min cfg\<rparr>"
    by (simp add: effective_min_def)
  have step: "NewRetry mons cfg =
     (if rcBreaker cfg = BreakerEnforce \<and> rcMonitor cfg = None then Inl EnforceWithoutMonitor
      else if rcBreaker cfg \<noteq> BreakerObserve \<and> rcBreaker cfg \<noteq> BreakerEnforce then Inl (BadBreaker (rcBreaker cfg))
      else case recover_by_violation (with_defaults cfg) of
             Some v \<Rightarrow> Inl (RecoverByViolation v) | None \<Rightarrow> Inr (fresh_retry mons (with_defaults cfg)))"
    using True share unfolding NewRetry_def Let_def defaulted
    by (cases "rcRecoverBy cfg = 0")
      (auto simp: capture_reserve_Some fresh_retry_def with_defaults_def not_less not_le
          cong: option.case_cong)
  show ?thesis
    unfolding step using True rb by (auto simp: sensible_def split: option.splits)
qed

lemma fresh_retry_ok:
  assumes "sensible cfg" "in_i64 (rcMaxDeliver cfg)"
  shows "retry_ok (fresh_retry mons (with_defaults cfg))"
  using assms effective_nonneg [of cfg]
  by (auto simp: retry_ok_def cfg_ok_def clocks_ok_def fresh_retry_def with_defaults_def sensible_def
        split: option.split)

text \<open>
  C37. \<open>NewRetry\<close> accepts exactly the sensible configurations, judged in unbounded arithmetic, and
  what it returns carries the configuration with its defaults applied, satisfies the invariant of a
  \<open>Retry\<close>, and holds no failure clock and no claim.
\<close>

theorem NewRetry_accepts_sensible:
  assumes "in_i64 (rcMaxDeliver cfg)" and "in_i64 (rcCaptureReserve cfg)"
  shows "((\<exists>r. NewRetry mons cfg = Inr r) = sensible cfg) \<and>
    (\<forall>r. NewRetry mons cfg = Inr r \<longrightarrow>
       retry_ok r \<and> rtCfg r = with_defaults cfg \<and> rtFailing r = [] \<and> \<not> rtHaveQuarantined r)"
  using NewRetry_Inr [OF assms] fresh_retry_ok assms(1) by (auto simp: fresh_retry_def)

definition demo_config :: retry_config where
  "demo_config = \<lparr>rcMaxDeliver = 6, rcMonitor = Some 0, rcMinDeliveries = 0,
     rcMaxTimeToDeadLetter = 25 * minute, rcRecoverBy = 4, rcBreaker = BreakerEnforce,
     rcCaptureReserve = 0, rcDLQSubject = ''repo.refs.dlq'',
     rcPublisher = Some (\<lambda>_ _. Inr \<lparr>paStream = ''dlq'', paSequence = 1, paDuplicate = False\<rparr>),
     rcOnSettle = True, rcName = ''refs'', rcLogger = None\<rparr>"

definition adopter_monitor :: floor_monitor where
  "adopter_monitor = demo_monitor\<lparr>fmCfg := (fmCfg demo_monitor)\<lparr>fcFloorAge := 20 * minute\<rparr>\<rparr>"

definition demo_retry :: retry where
  "demo_retry = fresh_retry (\<lambda>_. adopter_monitor) (with_defaults demo_config)"

lemma demo_sensible: "sensible demo_config"
  by (simp add: sensible_def demo_config_def effective_min_def effective_reserve_def
      DefaultMinDeliveries_def DefaultCaptureReserve_def NoCaptureReserve_def)

theorem NewRetry_accepts_sensible_witness:
  "(\<exists>r. NewRetry (\<lambda>_. demo_monitor) demo_config = Inr r) \<and>
   \<not> (\<exists>r. NewRetry (\<lambda>_. demo_monitor) (demo_config\<lparr>rcRecoverBy := 6\<rparr>) = Inr r)"
proof -
  have "\<not> sensible (demo_config\<lparr>rcRecoverBy := 6\<rparr>)"
    by (simp add: sensible_def demo_config_def effective_min_def effective_reserve_def
        DefaultMinDeliveries_def DefaultCaptureReserve_def NoCaptureReserve_def)
  moreover have "in_i64 (rcMaxDeliver demo_config)" "in_i64 (rcCaptureReserve demo_config)"
    "in_i64 (rcMaxDeliver (demo_config\<lparr>rcRecoverBy := 6\<rparr>))"
    "in_i64 (rcCaptureReserve (demo_config\<lparr>rcRecoverBy := 6\<rparr>))"
    by (simp_all add: demo_config_def in_i64_def)
  ultimately show ?thesis
    using demo_sensible NewRetry_accepts_sensible [of demo_config "\<lambda>_. demo_monitor"]
      NewRetry_accepts_sensible [of "demo_config\<lparr>rcRecoverBy := 6\<rparr>" "\<lambda>_. demo_monitor"]
    by blast
qed

section \<open>The failure clocks are bounded\<close>

definition permuting :: "('a list \<Rightarrow> 'a list) \<Rightarrow> bool" where
  "permuting order \<longleftrightarrow> (\<forall>xs. mset (order xs) = mset xs)"

lemma permuting_set: "permuting order \<Longrightarrow> set (order xs) = set xs"
  by (metis permuting_def mset_eq_setD)

lemma permuting_length: "permuting order \<Longrightarrow> length (order xs) = length xs"
  by (metis permuting_def mset_eq_length)

lemma permuting_distinct:
  assumes "permuting order"
  shows "distinct (map f (order xs)) = distinct (map f xs)"
proof -
  have "mset (map f (order xs)) = mset (map f xs)"
    using assms by (simp add: permuting_def)
  then show ?thesis by (rule mset_eq_imp_distinct_iff)
qed

lemma permuting_id: "permuting (\<lambda>xs. xs)"
  by (simp add: permuting_def)

lemma distinct_map_filter: "distinct (map f xs) \<Longrightarrow> distinct (map f (filter P xs))"
  by (induction xs) auto

text \<open>Removing the entries of the first \<open>k\<close> of an ordering of an association list leaves its rest.\<close>

lemma filter_victims:
  assumes "distinct (map fst ys)"
  shows "filter (\<lambda>e. fst e \<notin> set (map fst (take k ys))) ys = drop k ys"
proof -
  have d: "distinct (map fst (take k ys) @ map fst (drop k ys))"
    using assms by (metis append_take_drop_id map_append)
  have "filter (\<lambda>e. fst e \<notin> set (map fst (take k ys))) (take k ys) = []"
    by (auto simp: filter_empty_conv)
  moreover have "filter (\<lambda>e. fst e \<notin> set (map fst (take k ys))) (drop k ys) = drop k ys"
    using d by (intro filter_True) force
  ultimately show ?thesis
    by (metis append_take_drop_id filter_append append_Nil)
qed

lemma sweep_set:
  assumes "permuting order" "distinct (map fst failing)"
    and "live = filter (\<lambda>e. \<not> expired ttl now e) failing"
    and "aged = sort_key (\<lambda>e. frLast (snd e)) (order live)"
    and "maxTrackedFailures * 3 div 4 < length live"
  shows "set (sweepFailures order ttl now failing) = set (drop (length aged - maxTrackedFailures * 3 div 4) aged)"
    and "length (sweepFailures order ttl now failing) = maxTrackedFailures * 3 div 4"
proof -
  let ?k = "length aged - maxTrackedFailures * 3 div 4"
  let ?P = "\<lambda>e. fst e \<notin> set (map fst (take ?k aged))"
  have sweep: "sweepFailures order ttl now failing = filter ?P live"
    using assms(3-5) by (simp add: sweepFailures_def Let_def)
  have m: "mset aged = mset live"
    using assms(1,4) by (simp add: permuting_def)
  have "distinct (map fst live)" using assms(2,3) by (simp add: distinct_map_filter)
  then have "distinct (map fst aged)"
    using m by (metis mset_eq_imp_distinct_iff mset_map)
  then have drop: "filter ?P aged = drop ?k aged" by (rule filter_victims)
  have "mset (filter ?P live) = mset (drop ?k aged)"
    using m drop by (metis mset_filter)
  note same = this
  show "set (sweepFailures order ttl now failing) = set (drop ?k aged)"
    using mset_eq_setD [OF same] by (simp only: sweep)
  have "length (sweepFailures order ttl now failing) = length aged - ?k"
    using mset_eq_length [OF same] by (simp only: sweep length_drop)
  then show "length (sweepFailures order ttl now failing) = maxTrackedFailures * 3 div 4"
    using mset_eq_length [OF m] assms(5) by linarith
qed

lemma sweep_subset: "set (sweepFailures order ttl now failing) \<subseteq> set failing"
  by (auto simp: sweepFailures_def Let_def)

lemma sweep_distinct:
  "distinct (map fst failing) \<Longrightarrow> distinct (map fst (sweepFailures order ttl now failing))"
  by (simp add: sweepFailures_def Let_def distinct_map_filter)

lemma sweep_length:
  assumes "permuting order" "distinct (map fst failing)"
  shows "length (sweepFailures order ttl now failing) \<le> maxTrackedFailures * 3 div 4"
proof (cases "maxTrackedFailures * 3 div 4 < length (filter (\<lambda>e. \<not> expired ttl now e) failing)")
  case True
  from sweep_set(2) [OF assms refl refl True] show ?thesis by simp
next
  case False
  then show ?thesis by (simp add: sweepFailures_def Let_def)
qed

lemma update_keys_distinct:
  "distinct (map fst failing) \<Longrightarrow> distinct (map fst (AList.update k v failing))"
  by (rule distinct_update)

lemma note_clock_ok:
  assumes "permuting order" "clocks_ok failing"
  shows "clocks_ok (snd (note_clock order ttl sq now failing))"
proof -
  have d: "distinct (map fst (AList.update sq rc failing))" for rc
    using assms(2) by (simp add: clocks_ok_def distinct_update)
  have "length (sweepFailures order ttl now (AList.update sq rc failing)) \<le> maxTrackedFailures" for rc
    using sweep_length [OF assms(1) d, of ttl now rc] by (simp add: maxTrackedFailures_def)
  with d show ?thesis
    by (simp add: note_clock_def Let_def clocks_ok_def sweep_distinct)
qed

lemma delete_clock_ok: "clocks_ok failing \<Longrightarrow> clocks_ok (AList.delete sq failing)"
  by (auto simp: clocks_ok_def distinct_delete intro: le_trans [OF length_delete_le])

text \<open>
  What the sweep keeps. With distinct keys, and whatever order the map is iterated in, a sweep
  leaves at most 3072 clocks, all of them unexpired and unchanged; it drops an unexpired clock only
  when more than 3072 are unexpired, and then no clock it drops was touched after one it keeps.
\<close>

theorem sweep_keeps_most_recent:
  assumes "permuting order" and "distinct (map fst failing)"
    and "kept = sweepFailures order ttl now failing"
  shows "length kept \<le> 3072 \<and> set kept \<subseteq> {e \<in> set failing. \<not> expired ttl now e} \<and>
    (\<forall>e \<in> set failing. e \<notin> set kept \<and> \<not> expired ttl now e \<longrightarrow>
       length kept = 3072 \<and> (\<forall>e' \<in> set kept. frLast (snd e) \<le> frLast (snd e')))"
proof (cases "maxTrackedFailures * 3 div 4 < length (filter (\<lambda>e. \<not> expired ttl now e) failing)")
  case False
  then have "kept = filter (\<lambda>e. \<not> expired ttl now e) failing"
    by (simp add: assms(3) sweepFailures_def Let_def)
  with False show ?thesis by (auto simp: maxTrackedFailures_def)
next
  case True
  let ?live = "filter (\<lambda>e. \<not> expired ttl now e) failing"
  let ?aged = "sort_key (\<lambda>e. frLast (snd e)) (order ?live)"
  let ?k = "length ?aged - maxTrackedFailures * 3 div 4"
  note sweep = sweep_set [OF assms(1,2) refl refl True, folded assms(3)]
  have aged: "set ?aged = set ?live" using permuting_set [OF assms(1), of ?live] by simp
  have "sorted (map (\<lambda>e. frLast (snd e)) (take ?k ?aged @ drop ?k ?aged))" by simp
  then have le: "frLast (snd e) \<le> frLast (snd e')"
    if "e \<in> set (take ?k ?aged)" "e' \<in> set (drop ?k ?aged)" for e e'
    using that unfolding map_append sorted_append by auto
  have split: "set ?live = set (take ?k ?aged) \<union> set (drop ?k ?aged)"
    using aged by (metis append_take_drop_id set_append)
  have len: "length kept = 3072" using sweep(2) by (simp add: maxTrackedFailures_def)
  show ?thesis
  proof (intro conjI ballI impI)
    show "length kept \<le> 3072" using len by simp
    show "set kept \<subseteq> {e \<in> set failing. \<not> expired ttl now e}" using sweep(1) split by auto
    fix e assume e: "e \<in> set failing" "e \<notin> set kept \<and> \<not> expired ttl now e"
    show "length kept = 3072" by (rule len)
    fix e' assume "e' \<in> set kept"
    moreover have "e \<in> set (take ?k ?aged)" using e sweep(1) split by auto
    ultimately show "frLast (snd e) \<le> frLast (snd e')" using sweep(1) le by blast
  qed
qed

theorem sweep_keeps_most_recent_witness:
  "length (sweepFailures rev 10 50 [(7, \<lparr>frFirst = 0, frLast = 45\<rparr>), (8, \<lparr>frFirst = 0, frLast = 30\<rparr>)]) \<le> 3072"
  using sweep_keeps_most_recent [of rev "[(7, \<lparr>frFirst = 0, frLast = 45\<rparr>), (8, \<lparr>frFirst = 0, frLast = 30\<rparr>)]"
      "sweepFailures rev 10 50 [(7, \<lparr>frFirst = 0, frLast = 45\<rparr>), (8, \<lparr>frFirst = 0, frLast = 30\<rparr>)]" 10 50]
  by (simp add: permuting_def)

section \<open>The failure clocks measure\<close>

text \<open>The operations on the clocks, in the order the mutex serialises them.\<close>

datatype clock_op = Noted uint64 time | Forgotten uint64

fun clock_step :: "(failures \<Rightarrow> failures) \<Rightarrow> duration \<Rightarrow> clock_op \<Rightarrow> failures \<Rightarrow> failures" where
  "clock_step order ttl (Noted sq now) failing = snd (note_clock order ttl sq now failing)"
| "clock_step order ttl (Forgotten sq) failing = AList.delete sq failing"

definition run_clocks :: "(failures \<Rightarrow> failures) \<Rightarrow> duration \<Rightarrow> clock_op list \<Rightarrow> failures" where
  "run_clocks order ttl ops = fold (clock_step order ttl) ops []"

text \<open>The failures of one message this process has seen since it last settled it.\<close>

definition seen_step :: "uint64 \<Rightarrow> time list \<Rightarrow> clock_op \<Rightarrow> time list" where
  "seen_step sq ts op = (case op of
     Noted s t \<Rightarrow> if s = sq then ts @ [t] else ts
   | Forgotten s \<Rightarrow> if s = sq then [] else ts)"

definition seen_failures :: "uint64 \<Rightarrow> clock_op list \<Rightarrow> time list" where
  "seen_failures sq ops = foldl (seen_step sq) [] ops"

lemma run_clocks_snoc [simp]: "run_clocks order ttl (ops @ [x]) = clock_step order ttl x (run_clocks order ttl ops)"
  by (simp add: run_clocks_def)

lemma run_clocks_Nil [simp]: "run_clocks order ttl [] = []"
  by (simp add: run_clocks_def)

lemma seen_failures_snoc [simp]:
  "seen_failures sq (ops @ [Noted s t]) = (if s = sq then seen_failures sq ops @ [t] else seen_failures sq ops)"
  "seen_failures sq (ops @ [Forgotten s]) = (if s = sq then [] else seen_failures sq ops)"
  by (simp_all add: seen_failures_def seen_step_def)

lemma run_clocks_ok: "permuting order \<Longrightarrow> clocks_ok (run_clocks order ttl ops)"
proof (induction ops rule: rev_induct)
  case Nil
  then show ?case by (simp add: clocks_ok_def)
next
  case (snoc x ops)
  then show ?case by (cases x) (simp_all add: note_clock_ok delete_clock_ok)
qed

lemma note_clock_entries:
  assumes "(k, rc) \<in> set (snd (note_clock order ttl sq now failing))" "distinct (map fst failing)"
  shows "k \<noteq> sq \<and> (k, rc) \<in> set failing \<or>
     k = sq \<and> frLast rc = now \<and> (frFirst rc = now \<or> (\<exists>old. (sq, old) \<in> set failing \<and> frFirst rc = frFirst old))"
proof -
  define rc1 where "rc1 = (case map_of failing sq of None \<Rightarrow> \<lparr>frFirst = now, frLast = now\<rparr> | Some r \<Rightarrow> r\<lparr>frLast := now\<rparr>)"
  have "(k, rc) \<in> set (AList.update sq rc1 failing)"
    using assms(1) sweep_subset by (fastforce simp: note_clock_def Let_def rc1_def split: if_splits)
  moreover have "distinct (map fst (AList.update sq rc1 failing))"
    using assms(2) by (rule distinct_update)
  ultimately have "map_of (AList.update sq rc1 failing) k = Some rc"
    by (simp add: map_of_eq_Some_iff)
  then have "k = sq \<and> rc = rc1 \<or> k \<noteq> sq \<and> map_of failing k = Some rc"
    by (auto simp: update_conv' split: if_splits)
  moreover have "(i, old) \<in> set failing" if "map_of failing i = Some old" for i old
    using that by (rule map_of_SomeD)
  ultimately show ?thesis
    by (cases "map_of failing sq") (fastforce simp: rc1_def)+
qed

lemma clocks_seen:
  assumes "permuting order" "(sq, rc) \<in> set (run_clocks order ttl ops)"
  shows "frFirst rc \<in> set (seen_failures sq ops) \<and> seen_failures sq ops \<noteq> [] \<and>
     frLast rc = last (seen_failures sq ops)"
  using assms(2)
proof (induction ops arbitrary: sq rc rule: rev_induct)
  case Nil
  then show ?case by simp
next
  case (snoc x ops)
  have d: "distinct (map fst (run_clocks order ttl ops))"
    using run_clocks_ok [OF assms(1)] by (simp add: clocks_ok_def)
  show ?case
  proof (cases x)
    case (Noted s t)
    with snoc.prems have "(sq, rc) \<in> set (snd (note_clock order ttl s t (run_clocks order ttl ops)))" by simp
    from note_clock_entries [OF this d] show ?thesis
      using snoc.IH by (fastforce simp: Noted)
  next
    case (Forgotten s)
    with snoc.prems have "(sq, rc) \<in> set (run_clocks order ttl ops)" "sq \<noteq> s"
      by (auto simp: AList.delete_eq)
    with snoc.IH [of sq rc] show ?thesis by (simp add: Forgotten)
  qed
qed

text \<open>
  C35. How long a message has been failing is measured, and never inferred: after any history of
  failures and settlements of any messages, with any evictions in between, what \<open>noteFailure\<close>
  reports is the time since a failure of that very message which this process saw after it last
  settled it (the present failure included), so it is never longer than the time since the first of
  those; and however many messages fail, at most 4096 clocks are held.
\<close>

theorem failure_clock_measured:
  assumes "permuting order"
  shows "(\<exists>t \<in> set (seen_failures sq ops @ [now]).
       fst (note_clock order ttl sq now (run_clocks order ttl ops)) = time_sub now t) \<and>
     length (run_clocks order ttl ops) \<le> 4096 \<and> distinct (map fst (run_clocks order ttl ops))"
proof -
  have "clocks_ok (run_clocks order ttl ops)" by (rule run_clocks_ok [OF assms])
  moreover have "\<exists>t \<in> set (seen_failures sq ops @ [now]).
      fst (note_clock order ttl sq now (run_clocks order ttl ops)) = time_sub now t"
  proof (cases "map_of (run_clocks order ttl ops) sq")
    case None
    then show ?thesis by (simp add: note_clock_def Let_def)
  next
    case (Some rc)
    then show ?thesis
      using clocks_seen [OF assms map_of_SomeD [OF Some]] by (auto simp: note_clock_def Let_def)
  qed
  ultimately show ?thesis by (simp add: clocks_ok_def maxTrackedFailures_def)
qed

theorem failure_clock_measured_witness:
  "\<exists>t \<in> {100, 130}. fst (note_clock rev hour 5 130 (run_clocks rev hour [Noted 5 10, Forgotten 5, Noted 6 50, Noted 5 100]))
     = time_sub 130 t"
  using failure_clock_measured [of rev 5 "[Noted 5 10, Forgotten 5, Noted 6 50, Noted 5 100]" 130 hour]
  by (simp add: permuting_def seen_failures_def seen_step_def)

text \<open>
  C38. A message riding an accepted ladder is never forgotten by expiry: for a \<open>Retry\<close> built with a
  monitor, a schedule \<open>Validate\<close> accepts under that monitor's threshold, and any rung up to the
  dead-letter delivery, a clock touched at the previous failure is unexpired when the rung has passed,
  and for three further thresholds of handler time after that.
\<close>

theorem riding_clock_not_expired:
  assumes "NewRetry mons cfg = Inr r" and "in_i64 (rcMaxDeliver cfg)" and "in_i64 (rcCaptureReserve cfg)"
    and "rcMonitor cfg = Some p" and "0 < FloorAge (mons p)" and "4 * FloorAge (mons p) \<le> maxInt64"
    and "Validate s = []" and "scFloorAge s = FloorAge (mons p)" and "0 < scMaxDeliver s"
    and "2 \<le> i" and "i \<le> DeadLetterDelivery s"
    and "now \<le> frLast (snd e) + RungBefore s i + 3 * FloorAge (mons p)"
  shows "\<not> expired (rtFailureTTL r) now e"
proof -
  have r: "r = fresh_retry mons (with_defaults cfg)"
    using assms(1) NewRetry_Inr [OF assms(2,3)] by simp
  have ttl: "4 * FloorAge (mons p) \<le> rtFailureTTL r"
    using assms(4,5,6) by (simp add: r fresh_retry_def with_defaults_def wrap64_id in_i64_def maxInt64_def)
  have "ladder_checks s = []"
    using assms(7,9,10,11) by (auto simp: Validate_def split: if_splits)
  then have "LongestRung s \<le> FloorAge (mons p)"
    using assms(5,8) by (auto simp: ladder_checks_def Let_def split: if_splits)
  then have "RungBefore s i \<le> FloorAge (mons p)"
    using assms(10,11) by (simp add: LongestRung_le)
  then have "now - frLast (snd e) \<le> rtFailureTTL r" using assms(12) ttl by linarith
  then show ?thesis using ttl assms(5)
    by (simp add: expired_def time_sub_def maxInt64_def minInt64_def)
qed

theorem riding_clock_not_expired_witness:
  "\<not> expired (rtFailureTTL demo_retry) (60 * minute) (7, \<lparr>frFirst = 0, frLast = 0\<rparr>)"
proof (rule riding_clock_not_expired [where mons = "\<lambda>_. adopter_monitor"
      and cfg = demo_config and s = adopter_schedule and p = 0 and i = 3])
  show i: "in_i64 (rcMaxDeliver demo_config)" "in_i64 (rcCaptureReserve demo_config)"
    by (simp_all add: demo_config_def in_i64_def)
  show "NewRetry (\<lambda>_. adopter_monitor) demo_config = Inr demo_retry"
    by (simp add: NewRetry_Inr [OF i] demo_sensible demo_retry_def)
  show "Validate adopter_schedule = []" by code_simp
  show "3 \<le> DeadLetterDelivery adopter_schedule" by code_simp
qed (simp_all add: demo_config_def FloorAge_def adopter_monitor_def RungBefore_def
      adopter_schedule_def zero_schedule_def duration_units maxInt64_def)

section \<open>The quarantine budget\<close>

text \<open>Successive attempts to claim, each at the floor and time it was made.\<close>

fun spend_all :: "duration \<Rightarrow> (uint64 \<times> time) list \<Rightarrow> retry \<Rightarrow> bool list" where
  "spend_all window [] r = []"
| "spend_all window ((fl, now) # attempts) r =
     (let (ok, r1) = spendQuarantineBudget fl window now r in ok # spend_all window attempts r1)"

definition claimed_in :: "uint64 \<Rightarrow> duration \<Rightarrow> time \<Rightarrow> retry \<Rightarrow> bool" where
  "claimed_in fl window t0 r \<longleftrightarrow> rtHaveQuarantined r \<and> rtQuarantinedFloor r = fl \<and>
     t0 \<le> rtQuarantined r \<and> rtQuarantined r < t0 + window"

lemma claimed_denies:
  assumes "claimed_in fl window t0 r" "t0 \<le> now" "now < t0 + window"
  shows "spendQuarantineBudget fl window now r = (False, r)"
  using assms by (auto simp: spendQuarantineBudget_def claimed_in_def time_sub_def maxInt64_def minInt64_def)

lemma spend_all_claimed:
  assumes "claimed_in fl window t0 r"
    and "list_all (\<lambda>(f, now). f = fl \<and> t0 \<le> now \<and> now < t0 + window) attempts"
  shows "filter (\<lambda>ok. ok) (spend_all window attempts r) = []"
  using assms
  by (induction window attempts r rule: spend_all.induct) (auto simp: claimed_denies)

text \<open>
  The blast radius of the breaker: however many messages meet its condition while the ack floor
  stands at one sequence, and whatever claims came before, at most one is claimed in any span of time
  as long as the window (the threshold).
\<close>

theorem one_claim_per_window:
  assumes "list_all (\<lambda>(f, now). f = fl \<and> t0 \<le> now \<and> now < t0 + window) attempts"
  shows "length (filter (\<lambda>ok. ok) (spend_all window attempts r)) \<le> 1"
  using assms
proof (induction window attempts r rule: spend_all.induct)
  case (2 window f now attempts r)
  then show ?case
  proof (cases "fst (spendQuarantineBudget f window now r)")
    case True
    then have "claimed_in fl window t0 (snd (spendQuarantineBudget f window now r))"
      using 2(2) by (auto simp: spendQuarantineBudget_def claimed_in_def split: if_splits)
    from spend_all_claimed [OF this] 2(2) True show ?thesis
      by (simp add: case_prod_unfold)
  next
    case False
    then show ?thesis using 2 by (cases "spendQuarantineBudget f window now r") auto
  qed
qed simp

theorem one_claim_per_window_witness:
  "spend_all 60 [(3, 100), (3, 130), (3, 159)] demo_retry = [True, False, False] \<and>
   length (filter (\<lambda>ok. ok) (spend_all 60 [(3, 100), (3, 130), (3, 159)] demo_retry)) \<le> 1"
  using one_claim_per_window [of 3 100 60 "[(3, 100), (3, 130), (3, 159)]" demo_retry]
  by (simp add: spendQuarantineBudget_def demo_retry_def fresh_retry_def time_sub_def
      maxInt64_def minInt64_def Let_def)

text \<open>A move of the floor frees the budget at once.\<close>

lemma moved_floor_claims:
  "fl \<noteq> rtQuarantinedFloor r \<Longrightarrow> fst (spendQuarantineBudget fl window now r)"
  by (simp add: spendQuarantineBudget_def)

section \<open>The conjunction\<close>

text \<open>The three facts the breaker requires, with the delivery guard, as one condition.\<close>

definition part_of_stall ::
  "(nat \<Rightarrow> floor_monitor) \<Rightarrow> time \<Rightarrow> jmsg \<Rightarrow> int \<Rightarrow> duration \<Rightarrow> retry \<Rightarrow> bool" where
  "part_of_stall mons monNow msg delivered failingFor r \<longleftrightarrow>
     (case rtMonitor r of None \<Rightarrow> False | Some p \<Rightarrow>
        Stalled (mons p) monNow \<and>
        (case meta_of msg of None \<Rightarrow> False | Some meta \<Rightarrow> fmFloor (mons p) < mdStreamSeq meta) \<and>
        rcMinDeliveries (rtCfg r) \<le> delivered \<and> FloorAge (mons p) \<le> failingFor)"

text \<open>What \<open>FloorStall\<close> reported, zero without a monitor.\<close>

definition stall_seen :: "(nat \<Rightarrow> floor_monitor) \<Rightarrow> time \<Rightarrow> retry \<Rightarrow> uint64 \<times> duration" where
  "stall_seen mons monNow r = (case rtMonitor r of None \<Rightarrow> (0, 0)
     | Some p \<Rightarrow> (fst (FloorStall (mons p) monNow), fst (snd (FloorStall (mons p) monNow))))"

lemma FloorStall_floor [simp]: "fst (FloorStall m t) = fmFloor m"
  by (simp add: FloorStall_def)

lemma shouldQuarantine_unfold:
  "shouldQuarantine mons monNow msg delivered failingFor now r =
     (if part_of_stall mons monNow msg delivered failingFor r
      then (case rtMonitor r of Some p \<Rightarrow>
              (let (ok, r1) = spendQuarantineBudget (fmFloor (mons p)) (FloorAge (mons p)) now r
               in ((ok, stall_seen mons monNow r), r1))
            | None \<Rightarrow> ((False, 0, 0), r))
      else ((False, stall_seen mons monNow r), r))"
proof (cases "rtMonitor r")
  case None
  then show ?thesis by (simp add: shouldQuarantine_def part_of_stall_def stall_seen_def)
next
  case (Some p)
  obtain fl age st where f: "FloorStall (mons p) monNow = (fl, age, st)" by (cases "FloorStall (mons p) monNow")
  then have "fl = fmFloor (mons p)" using FloorStall_floor [of "mons p" monNow] by simp
  with Some f show ?thesis
    by (auto simp: shouldQuarantine_def part_of_stall_def stall_seen_def Stalled_def FloorAge_def
          not_less not_le split: option.split)
qed

lemma shouldQuarantine_cfg [simp]:
  "rtCfg (snd (shouldQuarantine mons monNow msg delivered failingFor now r)) = rtCfg r"
  "rtMonitor (snd (shouldQuarantine mons monNow msg delivered failingFor now r)) = rtMonitor r"
  "rtFailing (snd (shouldQuarantine mons monNow msg delivered failingFor now r)) = rtFailing r"
  "rtFailureTTL (snd (shouldQuarantine mons monNow msg delivered failingFor now r)) = rtFailureTTL r"
  "rtName (snd (shouldQuarantine mons monNow msg delivered failingFor now r)) = rtName r"
  "rtLogger (snd (shouldQuarantine mons monNow msg delivered failingFor now r)) = rtLogger r"
  by (simp_all add: shouldQuarantine_unfold spendQuarantineBudget_def case_prod_unfold Let_def
      split: option.split)

text \<open>
  C36. \<open>shouldQuarantine\<close> is the documented conjunction: it trips exactly when the monitor reports the
  floor stalled past the threshold, the message's own stream sequence is above that floor, the
  message has had its minimum of deliveries and has itself been failing for the threshold, and the
  budget allows a claim; it spends that budget exactly when the conjunction holds and the budget
  allows it, and reports the stall it was judged against in every case.
\<close>

theorem shouldQuarantine_is_conjunction:
  "fst (shouldQuarantine mons monNow msg delivered failingFor now r) =
     (part_of_stall mons monNow msg delivered failingFor r \<and>
        (case rtMonitor r of None \<Rightarrow> False | Some p \<Rightarrow>
           fst (spendQuarantineBudget (fmFloor (mons p)) (FloorAge (mons p)) now r)),
      stall_seen mons monNow r) \<and>
   snd (shouldQuarantine mons monNow msg delivered failingFor now r) =
     (if fst (fst (shouldQuarantine mons monNow msg delivered failingFor now r))
      then r\<lparr>rtHaveQuarantined := True, rtQuarantined := now,
             rtQuarantinedFloor := fst (stall_seen mons monNow r)\<rparr>
      else r)"
  by (auto simp: shouldQuarantine_unfold case_prod_unfold Let_def spendQuarantineBudget_def
        stall_seen_def split: option.split)

end
