(* ===== verification/Settle.thy ===== *)
theory Settle
  imports Retry
begin

text \<open>
  \<open>jsconsumer/retry.go\<close>, second half: \<open>Settle\<close>, \<open>DeadLetter\<close> (here \<open>Retry_DeadLetter\<close>) and the
  sequence \<open>terminate\<close> they share. Each takes the state of the \<open>Retry\<close> and returns the settlement and
  error of the Go function, the trace of what it did to the message, to the publisher, to the logger
  and to \<open>OnSettle\<close>, in order, and the state after it. The clocks, the monitors' heap, the header
  library and the iteration order of maps come in through \<open>settle_env\<close>.
\<close>

section \<open>The operations\<close>

record settle_env =
  seLib :: header_lib
  seNow :: time
  seMonNow :: time
  seMons :: "nat \<Rightarrow> floor_monitor"
  seOrder :: "failures \<Rightarrow> failures"

datatype event =
    EvCall msg_call
  | EvLog log_entry
  | EvSettle settlement

definition observe :: "retry \<Rightarrow> settlement \<Rightarrow> event list" where
  "observe r s = (if rcOnSettle (rtCfg r) then [EvSettle s] else [])"

definition awaitRedelivery :: "retry \<Rightarrow> settlement \<Rightarrow> settlement \<times> event list" where
  "awaitRedelivery r s = (let s1 = s\<lparr>stOutcome := OutcomeRetried\<rparr> in (s1, observe r s1))"

definition log_line :: "retry \<Rightarrow> log_level \<Rightarrow> string \<Rightarrow> event" where
  "log_line r lv msg = EvLog (LogEntry lv (snd (retry_log r)) msg)"

definition capture ::
  "settle_env \<Rightarrow> ctx \<Rightarrow> jmsg \<Rightarrow> cause \<Rightarrow> string \<Rightarrow> retry \<Rightarrow> goerr option \<times> event list" where
  "capture env c msg cs reason r =
     (case DeadLetter (seLib env) c (the (rcPublisher (rtCfg r))) (rcDLQSubject (rtCfg r)) msg
             (cause_string cs @ '': '' @ reason) of
        (None, calls) \<Rightarrow> (None, map EvCall calls)
      | (Some err, calls) \<Rightarrow> (Some (Errorf ''settle:dlq_publish_failed'' err),
          map EvCall calls @ [log_line r LevelError ''settle:dlq_publish_failed'']))"

definition terminate ::
  "settle_env \<Rightarrow> ctx \<Rightarrow> jmsg \<Rightarrow> settlement \<Rightarrow> string \<Rightarrow> retry
     \<Rightarrow> ((settlement \<times> goerr option) \<times> event list) \<times> retry" where
  "terminate env c msg s reason r =
     (let spent = brokerCapReached r (stDelivered s);
          settleCtx = withoutCancel c;
          (failed, ev) = capture env settleCtx msg (stCause s) reason r
      in case failed of
        Some err \<Rightarrow>
          if spent
          then let s1 = s\<lparr>stOutcome := OutcomeStranded\<rparr>
               in (((s1, Some (Errorf ''settle:stranded'' err)),
                    ev @ [log_line r LevelError ''message stranded; dead-letter capture failed with no deliveries left'']
                       @ observe r s1), r)
          else let (waiting, ev1) = awaitRedelivery r s
               in (((waiting\<lparr>stCause := stCause s\<rparr>, Some err), ev @ ev1), r)
      | None \<Rightarrow>
          let s1 = s\<lparr>stCaptured := True\<rparr>;
              ackCtx = withTimeout settleCtx dlqAckTimeout;
              ack = EvCall (CallDoubleAck ackCtx)
          in case ansDoubleAck msg ackCtx of
            Some err \<Rightarrow>
              if spent
              then let s2 = s1\<lparr>stOutcome := OutcomeUncertain\<rparr>
                   in (((s2, Some (Errorf ''settle:dlq_ack_unconfirmed'' err)),
                        ev @ [ack, log_line r LevelError ''settlement unconfirmed; captured to the DLQ but the ack was not acknowledged, with no deliveries left'']
                           @ observe r s2), r)
              else let s2 = s1\<lparr>stOutcome := OutcomeRetried\<rparr>
                   in (((s2, Some (Errorf ''settle:dlq_ack_failed'' err)), ev @ [ack] @ observe r s2), r)
          | None \<Rightarrow>
              let s2 = s1\<lparr>stOutcome := OutcomeDeadLettered\<rparr>;
                  r1 = forgetFailure (streamSeq msg) r
              in (((s2, None), ev @ [ack, log_line r1 LevelWarn ''dead-lettered''] @ observe r1 s2), r1))"

text \<open>The judgement \<open>Settle\<close> makes before it acts: how long the message has been failing, whether the
  breaker tripped, and the stall.\<close>

definition judge ::
  "settle_env \<Rightarrow> jmsg \<Rightarrow> bool \<Rightarrow> int \<Rightarrow> retry \<Rightarrow> (duration \<times> bool \<times> uint64 \<times> duration) \<times> retry" where
  "judge env msg interrupted delivered r =
     (case rtMonitor r of
        None \<Rightarrow> ((0, False, 0, 0), r)
      | Some p \<Rightarrow>
          if interrupted
          then let (fl, age, st) = FloorStall (seMons env p) (seMonNow env) in ((0, False, fl, age), r)
          else let (failingFor, r1) = noteFailure (seOrder env) (streamSeq msg) (seNow env) r;
                   ((q, fl, age), r2) =
                     shouldQuarantine (seMons env) (seMonNow env) msg delivered failingFor (seNow env) r1
               in ((failingFor, q, fl, age), r2))"

definition Settle ::
  "settle_env \<Rightarrow> ctx \<Rightarrow> jmsg \<Rightarrow> string \<Rightarrow> retry
     \<Rightarrow> ((settlement \<times> goerr option) \<times> event list) \<times> retry" where
  "Settle env c msg reason r =
     (let delivered = NumDelivered msg;
          interrupted = (IsInterrupted c \<and> \<not> brokerCapReached r delivered);
          ((failingFor, quarantine, fl, age), r1) = judge env msg interrupted delivered r;
          s = \<lparr>stOutcome = OutcomeNone, stCause = CauseNone, stDelivered = delivered, stFloor = fl,
               stFloorAge = age, stFailingFor = failingFor, stBreakerTripped = quarantine, stCaptured = False\<rparr>;
          ev = (if quarantine \<and> rcBreaker (rtCfg r1) \<noteq> BreakerEnforce
                then [log_line r1 LevelWarn ''breaker would dead-letter this message (observe only)''] else [])
      in if quarantine \<and> rcBreaker (rtCfg r1) = BreakerEnforce \<or> ladderSpent r1 delivered
         then let s1 = s\<lparr>stCause := (if quarantine \<and> rcBreaker (rtCfg r1) = BreakerEnforce
                                   then CauseFloorAge else CauseExhausted)\<rparr>
              in if interrupted
                 then let (s2, ev1) = awaitRedelivery r1 (s1\<lparr>stCause := CauseShutdown\<rparr>)
                      in (((s2, None),
                           ev @ [log_line r1 LevelInfo ''settlement deferred; delivery interrupted on the last rung of the ladder, leaving it for redelivery'']
                              @ ev1), r1)
                 else let (res, r2) = terminate env c msg s1 reason r1
                      in ((fst res, ev @ snd res), r2)
         else let (s1, ev1) = awaitRedelivery r1 s in (((s1, None), ev @ ev1), r1))"

definition Retry_DeadLetter ::
  "settle_env \<Rightarrow> ctx \<Rightarrow> jmsg \<Rightarrow> string \<Rightarrow> retry
     \<Rightarrow> ((settlement \<times> goerr option) \<times> event list) \<times> retry" where
  "Retry_DeadLetter env c msg reason r =
     (let (fl, age, failingFor, r1) =
            (case rtMonitor r of
               None \<Rightarrow> (0, 0, 0, r)
             | Some p \<Rightarrow>
                 let (fl, age, st) = FloorStall (seMons env p) (seMonNow env);
                     (d, r1) = noteFailure (seOrder env) (streamSeq msg) (seNow env) r
                 in (fl, age, d, r1));
          s = \<lparr>stOutcome = OutcomeNone, stCause = CausePermanent, stDelivered = NumDelivered msg, stFloor = fl,
               stFloorAge = age, stFailingFor = failingFor, stBreakerTripped = False, stCaptured = False\<rparr>
      in terminate env c msg s reason r1)"

section \<open>Reading a trace\<close>

fun calls_of :: "event list \<Rightarrow> msg_call list" where
  "calls_of [] = []"
| "calls_of (EvCall c # evs) = c # calls_of evs"
| "calls_of (EvLog l # evs) = calls_of evs"
| "calls_of (EvSettle s # evs) = calls_of evs"

fun settles_of :: "event list \<Rightarrow> settlement list" where
  "settles_of [] = []"
| "settles_of (EvCall c # evs) = settles_of evs"
| "settles_of (EvLog l # evs) = settles_of evs"
| "settles_of (EvSettle s # evs) = s # settles_of evs"

lemma calls_of_append [simp]: "calls_of (xs @ ys) = calls_of xs @ calls_of ys"
  by (induction xs rule: calls_of.induct) auto

lemma settles_of_append [simp]: "settles_of (xs @ ys) = settles_of xs @ settles_of ys"
  by (induction xs rule: settles_of.induct) auto

lemma calls_of_calls [simp]: "calls_of (map EvCall cs) = cs"
  by (induction cs) auto

lemma settles_of_calls [simp]: "settles_of (map EvCall cs) = []"
  by (induction cs) auto

lemma calls_of_log [simp]: "calls_of (log_line r lv m # evs) = calls_of evs"
  by (simp add: log_line_def)

lemma settles_of_log [simp]: "settles_of (log_line r lv m # evs) = settles_of evs"
  by (simp add: log_line_def)

lemma calls_of_observe [simp]: "calls_of (observe r s) = []"
  by (simp add: observe_def)

lemma settles_of_observe [simp]: "settles_of (observe r s) = (if rcOnSettle (rtCfg r) then [s] else [])"
  by (simp add: observe_def)

section \<open>The terminal sequence\<close>

text \<open>The two facts of the world a terminal sequence depends on: whether the copy reached the
  dead-letter subject, and whether the broker confirmed the acknowledgement.\<close>

definition copied :: "settle_env \<Rightarrow> ctx \<Rightarrow> jmsg \<Rightarrow> cause \<Rightarrow> string \<Rightarrow> retry \<Rightarrow> bool" where
  "copied env c msg cs reason r \<longleftrightarrow> fst (capture env (withoutCancel c) msg cs reason r) = None"

definition confirmed :: "ctx \<Rightarrow> jmsg \<Rightarrow> bool" where
  "confirmed c msg \<longleftrightarrow> ansDoubleAck msg (withTimeout (withoutCancel c) dlqAckTimeout) = None"

text \<open>The table of outcomes.\<close>

definition classify :: "bool \<Rightarrow> bool \<Rightarrow> bool \<Rightarrow> retry_outcome" where
  "classify copy confirm spent =
     (if \<not> copy then (if spent then OutcomeStranded else OutcomeRetried)
      else if confirm then OutcomeDeadLettered
      else if spent then OutcomeUncertain
      else OutcomeRetried)"

lemma capture_shape:
  "\<exists>pubCtx out. calls_of (snd (capture env c msg cs reason r)) = [CallPublish pubCtx out] \<and>
     settles_of (snd (capture env c msg cs reason r)) = [] \<and>
     ctxErr pubCtx = None \<and> ctxTimeout pubCtx = Some (15 * second) \<and>
     nmSubject out = rcDLQSubject (rtCfg r) \<and> nmData out = msgData msg \<and>
     nmHeader out = Some (capture_headers (seLib env) msg (cause_string cs @ '': '' @ reason)) \<and>
     (fst (capture env c msg cs reason r) = None \<longleftrightarrow> (\<exists>ack. the (rcPublisher (rtCfg r)) pubCtx out = Inr ack))"
proof -
  obtain pubCtx out where d:
    "snd (DeadLetter (seLib env) c (the (rcPublisher (rtCfg r))) (rcDLQSubject (rtCfg r)) msg
        (cause_string cs @ '': '' @ reason)) = [CallPublish pubCtx out]"
    "ctxErr pubCtx = None" "ctxTimeout pubCtx = Some (15 * second)"
    "nmSubject out = rcDLQSubject (rtCfg r)" "nmData out = msgData msg"
    "nmHeader out = Some (capture_headers (seLib env) msg (cause_string cs @ '': '' @ reason))"
    "fst (DeadLetter (seLib env) c (the (rcPublisher (rtCfg r))) (rcDLQSubject (rtCfg r)) msg
        (cause_string cs @ '': '' @ reason)) = None \<longleftrightarrow> (\<exists>ack. the (rcPublisher (rtCfg r)) pubCtx out = Inr ack)"
    using DeadLetter_trace [of "seLib env" c "the (rcPublisher (rtCfg r))" "rcDLQSubject (rtCfg r)" msg
        "cause_string cs @ '': '' @ reason"] by (elim exE conjE) (erule (6) that)
  from d(1) have "calls_of (snd (capture env c msg cs reason r)) = [CallPublish pubCtx out]"
    "settles_of (snd (capture env c msg cs reason r)) = []"
    by (auto simp: capture_def split: prod.splits option.splits)
  moreover have "fst (capture env c msg cs reason r) = None \<longleftrightarrow>
      fst (DeadLetter (seLib env) c (the (rcPublisher (rtCfg r))) (rcDLQSubject (rtCfg r)) msg
        (cause_string cs @ '': '' @ reason)) = None"
    by (auto simp: capture_def split: prod.splits option.splits)
  ultimately show ?thesis using d by (intro exI [of _ pubCtx] exI [of _ out]) simp
qed

definition terminal_calls :: "settle_env \<Rightarrow> ctx \<Rightarrow> jmsg \<Rightarrow> cause \<Rightarrow> string \<Rightarrow> retry \<Rightarrow> msg_call list" where
  "terminal_calls env c msg cs reason r =
     calls_of (snd (capture env (withoutCancel c) msg cs reason r)) @
     (if copied env c msg cs reason r then [CallDoubleAck (withTimeout (withoutCancel c) dlqAckTimeout)] else [])"

lemma terminate_result:
  assumes "terminate env c msg s reason r = (((s', e), ev), r')" "\<not> stCaptured s"
  shows "s' = s\<lparr>stOutcome := classify (copied env c msg (stCause s) reason r) (confirmed c msg)
                    (brokerCapReached r (stDelivered s)),
                stCaptured := copied env c msg (stCause s) reason r\<rparr>"
    and "e = None \<longleftrightarrow> copied env c msg (stCause s) reason r \<and> confirmed c msg"
    and "calls_of ev = terminal_calls env c msg (stCause s) reason r"
    and "settles_of ev = (if rcOnSettle (rtCfg r) then [s'] else [])"
    and "r' = (if copied env c msg (stCause s) reason r \<and> confirmed c msg
               then forgetFailure (streamSeq msg) r else r)"
proof -
  obtain failed cev where cap: "capture env (withoutCancel c) msg (stCause s) reason r = (failed, cev)"
    by (cases "capture env (withoutCancel c) msg (stCause s) reason r")
  have no_settle: "settles_of cev = []"
    using capture_shape [of env "withoutCancel c" msg "stCause s" reason r] cap by auto
  note defs = terminate_def Let_def awaitRedelivery_def classify_def copied_def confirmed_def
    terminal_calls_def forgetFailure_def
  show "s' = s\<lparr>stOutcome := classify (copied env c msg (stCause s) reason r) (confirmed c msg)
                    (brokerCapReached r (stDelivered s)),
                stCaptured := copied env c msg (stCause s) reason r\<rparr>"
    using assms cap by (auto simp: defs split: option.splits if_splits)
  show "e = None \<longleftrightarrow> copied env c msg (stCause s) reason r \<and> confirmed c msg"
    using assms cap by (auto simp: defs split: option.splits if_splits)
  show "calls_of ev = terminal_calls env c msg (stCause s) reason r"
    using assms cap by (auto simp: defs split: option.splits if_splits)
  show "settles_of ev = (if rcOnSettle (rtCfg r) then [s'] else [])"
    using assms cap no_settle by (auto simp: defs split: option.splits if_splits)
  show "r' = (if copied env c msg (stCause s) reason r \<and> confirmed c msg
               then forgetFailure (streamSeq msg) r else r)"
    using assms cap by (auto simp: defs split: option.splits if_splits)
qed

section \<open>The branch taken\<close>

text \<open>The abstract account of \<open>Settle\<close>: it takes one of three branches, and the branch with the two
  facts of the world determines the settlement, the error and everything done to the message.\<close>

datatype branch = OnLadder | Deferred | Terminal cause

definition interrupted_early :: "ctx \<Rightarrow> jmsg \<Rightarrow> retry \<Rightarrow> bool" where
  "interrupted_early c msg r \<longleftrightarrow> IsInterrupted c \<and> \<not> brokerCapReached r (NumDelivered msg)"

definition judged :: "settle_env \<Rightarrow> ctx \<Rightarrow> jmsg \<Rightarrow> retry \<Rightarrow> (duration \<times> bool \<times> uint64 \<times> duration) \<times> retry" where
  "judged env c msg r = judge env msg (interrupted_early c msg r) (NumDelivered msg) r"

definition tripped :: "settle_env \<Rightarrow> ctx \<Rightarrow> jmsg \<Rightarrow> retry \<Rightarrow> bool" where
  "tripped env c msg r = fst (snd (fst (judged env c msg r)))"

definition settle_branch :: "settle_env \<Rightarrow> ctx \<Rightarrow> jmsg \<Rightarrow> retry \<Rightarrow> branch" where
  "settle_branch env c msg r =
     (if tripped env c msg r \<and> rcBreaker (rtCfg r) = BreakerEnforce then Terminal CauseFloorAge
      else if \<not> ladderSpent r (NumDelivered msg) then OnLadder
      else if interrupted_early c msg r then Deferred
      else Terminal CauseExhausted)"

fun branch_cause :: "branch \<Rightarrow> cause" where
  "branch_cause OnLadder = CauseNone"
| "branch_cause Deferred = CauseShutdown"
| "branch_cause (Terminal cs) = cs"

definition base_settlement :: "settle_env \<Rightarrow> ctx \<Rightarrow> jmsg \<Rightarrow> retry \<Rightarrow> settlement" where
  "base_settlement env c msg r =
     (case fst (judged env c msg r) of (failingFor, q, fl, age) \<Rightarrow>
        \<lparr>stOutcome = OutcomeNone, stCause = CauseNone, stDelivered = NumDelivered msg, stFloor = fl,
         stFloorAge = age, stFailingFor = failingFor, stBreakerTripped = q, stCaptured = False\<rparr>)"

lemma noteFailure_frame [simp]:
  "rtCfg (snd (noteFailure order sq now r)) = rtCfg r"
  "rtMonitor (snd (noteFailure order sq now r)) = rtMonitor r"
  "rtFailureTTL (snd (noteFailure order sq now r)) = rtFailureTTL r"
  "rtName (snd (noteFailure order sq now r)) = rtName r"
  "rtLogger (snd (noteFailure order sq now r)) = rtLogger r"
  "rtQuarantined (snd (noteFailure order sq now r)) = rtQuarantined r"
  "rtQuarantinedFloor (snd (noteFailure order sq now r)) = rtQuarantinedFloor r"
  "rtHaveQuarantined (snd (noteFailure order sq now r)) = rtHaveQuarantined r"
  by (simp_all add: noteFailure_def case_prod_unfold Let_def)

lemma forgetFailure_frame [simp]:
  "rtCfg (forgetFailure sq r) = rtCfg r"
  "rtMonitor (forgetFailure sq r) = rtMonitor r"
  "rtFailureTTL (forgetFailure sq r) = rtFailureTTL r"
  by (simp_all add: forgetFailure_def)

lemma judge_frame [simp]:
  "rtCfg (snd (judge env msg i d r)) = rtCfg r"
  "rtMonitor (snd (judge env msg i d r)) = rtMonitor r"
  "rtFailureTTL (snd (judge env msg i d r)) = rtFailureTTL r"
  by (simp_all add: judge_def case_prod_unfold Let_def split: option.split)

text \<open>Everything after the judgement reads the configuration only.\<close>

lemma config_only:
  assumes "rtCfg r1 = rtCfg r"
  shows "ladderSpent r1 = ladderSpent r" "brokerCapReached r1 = brokerCapReached r"
    "copied env c msg cs reason r1 = copied env c msg cs reason r"
    "terminal_calls env c msg cs reason r1 = terminal_calls env c msg cs reason r"
proof -
  show "ladderSpent r1 = ladderSpent r" "brokerCapReached r1 = brokerCapReached r"
    using assms by (auto simp: ladderSpent_def brokerCapReached_def fun_eq_iff)
  have "fst (capture env x msg cs reason r1) = fst (capture env x msg cs reason r)"
    "calls_of (snd (capture env x msg cs reason r1)) = calls_of (snd (capture env x msg cs reason r))" for x
    using assms by (auto simp: capture_def split: prod.split option.split)
  then show "copied env c msg cs reason r1 = copied env c msg cs reason r"
    "terminal_calls env c msg cs reason r1 = terminal_calls env c msg cs reason r"
    by (simp_all add: copied_def terminal_calls_def)
qed

lemma interrupted_not_tripped: "interrupted_early c msg r \<Longrightarrow> \<not> tripped env c msg r"
  by (simp add: tripped_def judged_def judge_def case_prod_unfold Let_def split: option.split)

lemma Settle_by_branch:
  "Settle env c msg reason r =
     (let r1 = snd (judged env c msg r); s = base_settlement env c msg r;
          ev = (if tripped env c msg r \<and> rcBreaker (rtCfg r) \<noteq> BreakerEnforce
                then [log_line r1 LevelWarn ''breaker would dead-letter this message (observe only)''] else [])
      in case settle_branch env c msg r of
           OnLadder \<Rightarrow> (let (s1, ev1) = awaitRedelivery r1 s in (((s1, None), ev @ ev1), r1))
         | Deferred \<Rightarrow>
             (let (s2, ev1) = awaitRedelivery r1 (s\<lparr>stCause := CauseShutdown\<rparr>)
              in (((s2, None),
                   ev @ [log_line r1 LevelInfo ''settlement deferred; delivery interrupted on the last rung of the ladder, leaving it for redelivery'']
                      @ ev1), r1))
         | Terminal cs \<Rightarrow>
             (let (res, r2) = terminate env c msg (s\<lparr>stCause := cs\<rparr>) reason r1
              in ((fst res, ev @ snd res), r2)))"
proof -
  obtain failingFor q fl age r1 where j: "judged env c msg r = ((failingFor, q, fl, age), r1)"
    by (metis prod.exhaust)
  have cfg: "rtCfg r1 = rtCfg r"
    using j by (metis judge_frame(1) judged_def snd_conv)
  have q: "tripped env c msg r = q" using j by (simp add: tripped_def)
  have "interrupted_early c msg r \<Longrightarrow> \<not> q" using interrupted_not_tripped [of c msg r env] q by simp
  then show ?thesis
    unfolding Settle_def Let_def interrupted_early_def [symmetric] judged_def [symmetric] j
    by (cases "interrupted_early c msg r")
      (simp_all add: q j cfg config_only(1) [OF cfg] settle_branch_def base_settlement_def case_prod_unfold)
qed

section \<open>What a settlement is\<close>

text \<open>The settlement, error and trace of a branch.\<close>

definition branch_outcome :: "settle_env \<Rightarrow> ctx \<Rightarrow> jmsg \<Rightarrow> string \<Rightarrow> retry \<Rightarrow> retry_outcome" where
  "branch_outcome env c msg reason r =
     (case settle_branch env c msg r of
        Terminal cs \<Rightarrow> classify (copied env c msg cs reason r) (confirmed c msg)
                         (brokerCapReached r (NumDelivered msg))
      | _ \<Rightarrow> OutcomeRetried)"

definition branch_copied :: "settle_env \<Rightarrow> ctx \<Rightarrow> jmsg \<Rightarrow> string \<Rightarrow> retry \<Rightarrow> bool" where
  "branch_copied env c msg reason r =
     (case settle_branch env c msg r of Terminal cs \<Rightarrow> copied env c msg cs reason r | _ \<Rightarrow> False)"

definition branch_calls :: "settle_env \<Rightarrow> ctx \<Rightarrow> jmsg \<Rightarrow> string \<Rightarrow> retry \<Rightarrow> msg_call list" where
  "branch_calls env c msg reason r =
     (case settle_branch env c msg r of Terminal cs \<Rightarrow> terminal_calls env c msg cs reason r | _ \<Rightarrow> [])"

lemma judged_cfg: "rtCfg (snd (judged env c msg r)) = rtCfg r"
  by (simp add: judged_def)

lemma base_not_captured: "\<not> stCaptured (base_settlement env c msg r)"
  "stDelivered (base_settlement env c msg r) = NumDelivered msg"
  by (simp_all add: base_settlement_def case_prod_unfold)

lemma Settle_result:
  assumes "Settle env c msg reason r = (((s, e), ev), r')"
  shows "s = (base_settlement env c msg r)\<lparr>stOutcome := branch_outcome env c msg reason r,
           stCause := branch_cause (settle_branch env c msg r),
           stCaptured := branch_copied env c msg reason r\<rparr>"
    and "e = None \<longleftrightarrow> (case settle_branch env c msg r of
           Terminal cs \<Rightarrow> branch_outcome env c msg reason r = OutcomeDeadLettered | _ \<Rightarrow> True)"
    and "calls_of ev = branch_calls env c msg reason r"
    and "settles_of ev = (if rcOnSettle (rtCfg r) then [s] else [])"
    and "r' = (if branch_outcome env c msg reason r = OutcomeDeadLettered
               then forgetFailure (streamSeq msg) (snd (judged env c msg r)) else snd (judged env c msg r))"
proof -
  let ?b = "base_settlement env c msg r" and ?r1 = "snd (judged env c msg r)"
  note cfg = config_only [OF judged_cfg [of env c msg r]]
  note base = base_not_captured [of env c msg r]
  have all: "s = ?b\<lparr>stOutcome := branch_outcome env c msg reason r,
           stCause := branch_cause (settle_branch env c msg r),
           stCaptured := branch_copied env c msg reason r\<rparr> \<and>
     (e = None \<longleftrightarrow> (case settle_branch env c msg r of
           Terminal cs \<Rightarrow> branch_outcome env c msg reason r = OutcomeDeadLettered | _ \<Rightarrow> True)) \<and>
     calls_of ev = branch_calls env c msg reason r \<and>
     settles_of ev = (if rcOnSettle (rtCfg r) then [s] else []) \<and>
     r' = (if branch_outcome env c msg reason r = OutcomeDeadLettered
           then forgetFailure (streamSeq msg) ?r1 else ?r1)"
  proof (cases "settle_branch env c msg r")
    case (Terminal cs)
    obtain s2 e2 ev2 r2 where t: "terminate env c msg (?b\<lparr>stCause := cs\<rparr>) reason ?r1 = (((s2, e2), ev2), r2)"
      by (metis prod.exhaust)
    have "\<not> stCaptured (?b\<lparr>stCause := cs\<rparr>)" using base by simp
    note res = terminate_result [OF t this]
    have "(((s, e), ev), r') = (((s2, e2), (if tripped env c msg r \<and> rcBreaker (rtCfg r) \<noteq> BreakerEnforce
        then [log_line ?r1 LevelWarn ''breaker would dead-letter this message (observe only)''] else []) @ ev2), r2)"
      using assms by (simp add: Settle_by_branch Terminal t Let_def)
    then show ?thesis
      using res Terminal base
      by (auto simp: cfg judged_cfg branch_outcome_def branch_copied_def branch_calls_def classify_def)
  qed (use assms base in \<open>auto simp: Settle_by_branch Let_def awaitRedelivery_def judged_cfg
        branch_outcome_def branch_copied_def branch_calls_def base_settlement_def case_prod_unfold\<close>)
  then show "s = ?b\<lparr>stOutcome := branch_outcome env c msg reason r,
           stCause := branch_cause (settle_branch env c msg r),
           stCaptured := branch_copied env c msg reason r\<rparr>"
    and "e = None \<longleftrightarrow> (case settle_branch env c msg r of
           Terminal cs \<Rightarrow> branch_outcome env c msg reason r = OutcomeDeadLettered | _ \<Rightarrow> True)"
    and "calls_of ev = branch_calls env c msg reason r"
    and "settles_of ev = (if rcOnSettle (rtCfg r) then [s] else [])"
    and "r' = (if branch_outcome env c msg reason r = OutcomeDeadLettered
               then forgetFailure (streamSeq msg) ?r1 else ?r1)"
    by simp_all
qed

section \<open>Nothing is dropped\<close>

lemma terminal_calls_safe:
  assumes "terminal_calls env c msg cs reason r = pre @ call # post" "disposes call"
  shows "\<exists>pubCtx out ack ackCtx. pre = [CallPublish pubCtx out] \<and> call = CallDoubleAck ackCtx \<and> post = [] \<and>
     the (rcPublisher (rtCfg r)) pubCtx out = Inr ack \<and>
     nmSubject out = rcDLQSubject (rtCfg r) \<and> nmData out = msgData msg \<and>
     ctxErr pubCtx = None \<and> ctxTimeout pubCtx = Some (15 * second) \<and>
     ctxErr ackCtx = None \<and> ctxTimeout ackCtx = Some (15 * second)"
proof -
  let ?ack = "withTimeout (withoutCancel c) dlqAckTimeout"
  obtain pubCtx out where p:
    "calls_of (snd (capture env (withoutCancel c) msg cs reason r)) = [CallPublish pubCtx out]"
    "ctxErr pubCtx = None" "ctxTimeout pubCtx = Some (15 * second)"
    "nmSubject out = rcDLQSubject (rtCfg r)" "nmData out = msgData msg"
    "copied env c msg cs reason r \<longleftrightarrow> (\<exists>ack. the (rcPublisher (rtCfg r)) pubCtx out = Inr ack)"
    using capture_shape [of env "withoutCancel c" msg cs reason r]
    by (elim exE conjE) (rule that, simp_all add: copied_def)
  have calls: "[CallPublish pubCtx out] @ (if copied env c msg cs reason r then [CallDoubleAck ?ack] else [])
      = pre @ call # post"
    using assms(1) p(1) by (simp add: terminal_calls_def)
  then have c: "copied env c msg cs reason r" and pre: "pre = [CallPublish pubCtx out]"
    and "call = CallDoubleAck ?ack" "post = []"
    using assms(2) by (auto simp: Cons_eq_append_conv append_eq_Cons_conv split: if_splits)
  moreover obtain ack where "the (rcPublisher (rtCfg r)) pubCtx out = Inr ack" using c p(6) by blast
  moreover have "ctxErr ?ack = None" "ctxTimeout ?ack = Some (15 * second)"
    by (simp_all add: withTimeout_def dlqAckTimeout_def second_def)
  ultimately show ?thesis
    using p by (intro exI [of _ pubCtx] exI [of _ out] exI [of _ ack] exI [of _ ?ack]) simp
qed

text \<open>
  C1. \<open>Settle\<close> never drops a message. Whatever branch it takes and however the calls it makes answer,
  the only disposition it ever sends for the message is a confirmed acknowledgement, it is the last
  thing it does to the message, and immediately before it the publisher accepted a copy of the
  message's own payload on the dead-letter subject; both run on contexts a shutdown cannot cancel,
  each bounded by fifteen seconds. It never Naks, Terms or plainly Acks.
\<close>

theorem Settle_never_drops:
  assumes "calls_of (snd (fst (Settle env c msg reason r))) = pre @ call # post" and "disposes call"
  shows "\<exists>pubCtx out ack ackCtx. pre = [CallPublish pubCtx out] \<and> call = CallDoubleAck ackCtx \<and> post = [] \<and>
     the (rcPublisher (rtCfg r)) pubCtx out = Inr ack \<and>
     nmSubject out = rcDLQSubject (rtCfg r) \<and> nmData out = msgData msg \<and>
     ctxErr pubCtx = None \<and> ctxTimeout pubCtx = Some (15 * second) \<and>
     ctxErr ackCtx = None \<and> ctxTimeout ackCtx = Some (15 * second)"
proof -
  obtain s e ev r' where s: "Settle env c msg reason r = (((s, e), ev), r')"
    by (metis prod.exhaust)
  have "branch_calls env c msg reason r = pre @ call # post"
    using assms(1) Settle_result(3) [OF s] by (simp add: s)
  then obtain cs where "terminal_calls env c msg cs reason r = pre @ call # post"
    by (auto simp: branch_calls_def split: branch.splits)
  from terminal_calls_safe [OF this assms(2)] show ?thesis .
qed

text \<open>A world for evaluation: the adopter's monitor, stalled at floor 8 since time 0, and clocks at one
  hour.\<close>

definition demo_env :: settle_env where
  "demo_env = \<lparr>seLib = std_header_lib, seNow = hour, seMonNow = hour,
     seMons = (\<lambda>_. observeFloor 8 12 0 adopter_monitor), seOrder = (\<lambda>xs. xs)\<rparr>"

lemma demo_settle_branch:
  "settle_branch demo_env background (sample_msg 9 5) demo_retry = Terminal CauseExhausted"
  by code_simp

lemma demo_copied: "copied demo_env background (sample_msg 9 5) CauseExhausted reason demo_retry"
  using capture_shape [of demo_env "withoutCancel background" "sample_msg 9 5" CauseExhausted reason demo_retry]
  by (auto simp: copied_def demo_retry_def fresh_retry_def with_defaults_def demo_config_def)

theorem Settle_never_drops_witness:
  "\<exists>pubCtx out ack ackCtx.
     calls_of (snd (fst (Settle demo_env background (sample_msg 9 5) ''timeout'' demo_retry)))
       = [CallPublish pubCtx out, CallDoubleAck ackCtx] \<and>
     the (rcPublisher (rtCfg demo_retry)) pubCtx out = Inr ack"
proof -
  let ?S = "Settle demo_env background (sample_msg 9 5) ''timeout'' demo_retry"
  obtain s e ev r' where s: "?S = (((s, e), ev), r')" by (metis prod.exhaust)
  obtain pre ackCtx where calls: "calls_of (snd (fst ?S)) = pre @ CallDoubleAck ackCtx # []"
    using Settle_result(3) [OF s] demo_copied [of "''timeout''"]
    by (simp add: s branch_calls_def demo_settle_branch terminal_calls_def)
  have "disposes (CallDoubleAck ackCtx)" by simp
  from Settle_never_drops [OF calls this] show ?thesis by (auto simp: calls)
qed

section \<open>The table of outcomes\<close>

lemma classify_eq:
  "classify copy confirm spent = OutcomeStranded \<longleftrightarrow> \<not> copy \<and> spent"
  "classify copy confirm spent = OutcomeUncertain \<longleftrightarrow> copy \<and> \<not> confirm \<and> spent"
  "classify copy confirm spent = OutcomeDeadLettered \<longleftrightarrow> copy \<and> confirm"
  "classify copy confirm spent = OutcomeRetried \<longleftrightarrow> \<not> spent \<and> \<not> (copy \<and> confirm)"
  "classify copy confirm spent \<noteq> OutcomeNone"
  by (auto simp: classify_def)

text \<open>
  C3. Every settlement is reported as what it is. On the terminal branches the outcome is the table's:
  dead-lettered exactly when the copy and the acknowledgement both succeeded, stranded (nothing
  copied) or uncertain (copied, not confirmed) only at the broker's own delivery cap, retried while
  deliveries remain; the other branches are retries that copy nothing. An error is returned exactly
  by a terminal branch that did not dead-letter, the cause names the branch, and \<open>OnSettle\<close>, when
  set, is called exactly once, with the very settlement that is returned.
\<close>

theorem Settle_classifies:
  "(case Settle env c msg reason r of (((s, e), ev), r') \<Rightarrow>
     (case settle_branch env c msg r of
        Terminal cs \<Rightarrow>
          stOutcome s = classify (copied env c msg cs reason r) (confirmed c msg)
                          (brokerCapReached r (NumDelivered msg)) \<and>
          stCaptured s = copied env c msg cs reason r \<and>
          (e = None) = (stOutcome s = OutcomeDeadLettered)
      | _ \<Rightarrow> stOutcome s = OutcomeRetried \<and> \<not> stCaptured s \<and> e = None) \<and>
     stCause s = branch_cause (settle_branch env c msg r) \<and>
     stDelivered s = NumDelivered msg \<and>
     settles_of ev = (if rcOnSettle (rtCfg r) then [s] else []))"
proof -
  obtain s e ev r' where s: "Settle env c msg reason r = (((s, e), ev), r')"
    by (metis prod.exhaust)
  note res = Settle_result [OF s]
  show ?thesis
    using res(2,4) base_not_captured(2) [of env c msg r]
    by (simp add: s, simp add: res(1) branch_outcome_def branch_copied_def split: branch.splits)
qed

section \<open>Interruption\<close>

text \<open>
  C28. A delivery interrupted by shutdown is no evidence. When the handler's context was cancelled and
  the broker still has deliveries to serve, \<open>Settle\<close> leaves the message untouched (no call on it and
  no publish), reports a retry without an error, and leaves the whole state of the \<open>Retry\<close> as it was: no failure
  clock is started, the breaker is not evaluated, and no quarantine claim is spent.
\<close>

theorem interrupted_is_no_evidence:
  assumes "IsInterrupted c" and "\<not> brokerCapReached r (NumDelivered msg)"
    and "Settle env c msg reason r = (((s, e), ev), r')"
  shows "r' = r \<and> calls_of ev = [] \<and> e = None \<and> stOutcome s = OutcomeRetried \<and>
     stFailingFor s = 0 \<and> \<not> stBreakerTripped s \<and>
     stCause s = (if ladderSpent r (NumDelivered msg) then CauseShutdown else CauseNone)"
proof -
  have i: "interrupted_early c msg r" using assms(1,2) by (simp add: interrupted_early_def)
  then have j: "snd (judged env c msg r) = r" "fst (fst (judged env c msg r)) = 0"
    by (simp_all add: judged_def judge_def case_prod_unfold Let_def split: option.split)
  have b: "settle_branch env c msg r = (if ladderSpent r (NumDelivered msg) then Deferred else OnLadder)"
    using i interrupted_not_tripped [OF i] by (simp add: settle_branch_def)
  note res = Settle_result [OF assms(3)]
  have s: "s = (base_settlement env c msg r)\<lparr>stOutcome := OutcomeRetried,
      stCause := (if ladderSpent r (NumDelivered msg) then CauseShutdown else CauseNone), stCaptured := False\<rparr>"
    using res(1) by (simp add: b branch_outcome_def branch_copied_def)
  have "e = None" using res(2) by (simp add: b split: if_splits)
  moreover have "r' = r" using res(5) by (simp add: b j branch_outcome_def split: if_splits)
  moreover have "calls_of ev = []" using res(3) by (simp add: b branch_calls_def)
  moreover have "stFailingFor (base_settlement env c msg r) = 0"
    "\<not> stBreakerTripped (base_settlement env c msg r)"
    using j(2) interrupted_not_tripped [OF i, of env]
    by (simp_all add: base_settlement_def tripped_def case_prod_unfold)
  ultimately show ?thesis using s by simp
qed

theorem interrupted_is_no_evidence_witness:
  "snd (Settle demo_env (cancelled background) (sample_msg 9 5) ''shutdown'' demo_retry) = demo_retry"
proof -
  obtain s e ev r' where s: "Settle demo_env (cancelled background) (sample_msg 9 5) ''shutdown'' demo_retry
      = (((s, e), ev), r')"
    by (metis prod.exhaust)
  have "IsInterrupted (cancelled background)" by code_simp
  moreover have "\<not> brokerCapReached demo_retry (NumDelivered (sample_msg 9 5))" by code_simp
  ultimately show ?thesis using interrupted_is_no_evidence [OF _ _ s] by (simp add: s)
qed

text \<open>
  C29. At the broker's own cap the opposite holds: no cancellation and no deadline of the handler's
  context has any influence on the settlement, the trace or the state, so a shutdown that lands on the
  last delivery never strands a message that could have been captured.
\<close>

theorem final_delivery_ignores_cancellation:
  assumes "brokerCapReached r (NumDelivered msg)"
  shows "Settle env (c\<lparr>ctxErr := err, ctxTimeout := deadline\<rparr>) msg reason r = Settle env c msg reason r"
proof -
  let ?c = "c\<lparr>ctxErr := err, ctxTimeout := deadline\<rparr>"
  have w: "withoutCancel ?c = withoutCancel c"
    by (simp add: withoutCancel_def)
  have t: "terminate env ?c = terminate env c"
    by (intro ext) (unfold terminate_def Let_def w, rule refl)
  have i: "(IsInterrupted ?c \<and> \<not> brokerCapReached r (NumDelivered msg))
      = (IsInterrupted c \<and> \<not> brokerCapReached r (NumDelivered msg))"
    using assms by simp
  show ?thesis unfolding Settle_def Let_def t i by (rule refl)
qed

theorem final_delivery_ignores_cancellation_witness:
  "Settle demo_env (background\<lparr>ctxErr := Some (Sentinel CtxCanceled), ctxTimeout := Some 0\<rparr>)
     (sample_msg 9 6) ''timeout'' demo_retry
   = Settle demo_env background (sample_msg 9 6) ''timeout'' demo_retry"
proof -
  have "brokerCapReached demo_retry (NumDelivered (sample_msg 9 6))" by code_simp
  from final_delivery_ignores_cancellation [OF this] show ?thesis .
qed

section \<open>The breaker\<close>

lemma judged_evaluates:
  assumes "rtMonitor r = Some p" "\<not> interrupted_early c msg r"
    and "noteFailure (seOrder env) (streamSeq msg) (seNow env) r = (d, r1)"
  shows "judged env c msg r =
     (let ((q, fl, age), r2) = shouldQuarantine (seMons env) (seMonNow env) msg (NumDelivered msg) d (seNow env) r1
      in ((d, q, fl, age), r2))"
  using assms by (simp add: judged_def judge_def)

lemma tripped_evidence:
  assumes "tripped env c msg r"
    and "noteFailure (seOrder env) (streamSeq msg) (seNow env) r = (d, r1)"
  shows "part_of_stall (seMons env) (seMonNow env) msg (NumDelivered msg) d r1"
    and "stFailingFor (base_settlement env c msg r) = d"
    and "(stFloor (base_settlement env c msg r), stFloorAge (base_settlement env c msg r))
           = stall_seen (seMons env) (seMonNow env) r"
proof -
  obtain p where p: "rtMonitor r = Some p"
    using assms(1) by (cases "rtMonitor r") (simp_all add: tripped_def judged_def judge_def)
  have i: "\<not> interrupted_early c msg r" using assms(1) interrupted_not_tripped by blast
  have m: "rtMonitor r1 = rtMonitor r" "rtCfg r1 = rtCfg r"
    using noteFailure_frame [of "seOrder env" "streamSeq msg" "seNow env" r] assms(2) by simp_all
  note j = judged_evaluates [OF p i assms(2)]
  show pos: "part_of_stall (seMons env) (seMonNow env) msg (NumDelivered msg) d r1"
    using assms(1) by (auto simp: tripped_def j shouldQuarantine_unfold split: if_splits)
  show "stFailingFor (base_settlement env c msg r) = d"
    by (simp add: base_settlement_def j case_prod_unfold Let_def)
  show "(stFloor (base_settlement env c msg r), stFloorAge (base_settlement env c msg r))
           = stall_seen (seMons env) (seMonNow env) r"
    using pos p m by (simp add: base_settlement_def j case_prod_unfold Let_def shouldQuarantine_unfold
        stall_seen_def)
qed

text \<open>
  C4. The breaker acts only on evidence. Whenever \<open>Settle\<close> dead-letters with cause floor-age, the mode
  is enforce, the monitor reported its floor stalled for at least the threshold, the message's own
  stream sequence is above that floor, it has had its minimum of deliveries, and the time this very
  process measured it failing for, which is what the settlement reports, is at least the threshold.
\<close>

theorem breaker_acts_on_evidence:
  assumes "Settle env c msg reason r = (((s, e), ev), r')" and "stCause s = CauseFloorAge"
  shows "\<exists>p meta. rcBreaker (rtCfg r) = BreakerEnforce \<and> rtMonitor r = Some p \<and>
     Stalled (seMons env p) (seMonNow env) \<and>
     meta_of msg = Some meta \<and> fmFloor (seMons env p) < mdStreamSeq meta \<and>
     rcMinDeliveries (rtCfg r) \<le> stDelivered s \<and>
     stFailingFor s = fst (noteFailure (seOrder env) (streamSeq msg) (seNow env) r) \<and>
     FloorAge (seMons env p) \<le> stFailingFor s \<and>
     stFloor s = fmFloor (seMons env p) \<and> FloorAge (seMons env p) \<le> stFloorAge s"
proof -
  obtain d r1 where n: "noteFailure (seOrder env) (streamSeq msg) (seNow env) r = (d, r1)" by force
  have frame: "rtMonitor r1 = rtMonitor r" "rtCfg r1 = rtCfg r"
    using noteFailure_frame [of "seOrder env" "streamSeq msg" "seNow env" r] n by simp_all
  note res = Settle_result [OF assms(1)]
  have "branch_cause (settle_branch env c msg r) = CauseFloorAge" using assms(2) res(1) by simp
  then have t: "tripped env c msg r" "rcBreaker (rtCfg r) = BreakerEnforce"
    by (auto simp: settle_branch_def split: if_splits)
  note ev = tripped_evidence [OF t(1) n]
  from ev(1) frame obtain p where p: "rtMonitor r = Some p"
    by (cases "rtMonitor r") (simp_all add: part_of_stall_def)
  from ev(1) frame p obtain meta where meta: "meta_of msg = Some meta"
    by (cases "meta_of msg") (simp_all add: part_of_stall_def)
  have "FloorAge (seMons env p) \<le> fst (snd (FloorStall (seMons env p) (seMonNow env)))"
    using ev(1) frame p by (auto simp: part_of_stall_def Stalled_def FloorAge_def case_prod_unfold)
  then show ?thesis
    using ev frame p meta t(2) n base_not_captured(2) [of env c msg r]
    by (simp add: res(1) part_of_stall_def stall_seen_def)
qed

definition stalled_retry :: retry where
  "stalled_retry = demo_retry\<lparr>rtFailing := [(9, \<lparr>frFirst = 0, frLast = 45 * minute\<rparr>)]\<rparr>"

theorem breaker_acts_on_evidence_witness:
  "\<exists>s e ev r'. Settle demo_env background (sample_msg 9 4) ''timeout'' stalled_retry = (((s, e), ev), r') \<and>
     stCause s = CauseFloorAge \<and> 20 * minute \<le> stFailingFor s"
proof -
  obtain s e ev r' where s: "Settle demo_env background (sample_msg 9 4) ''timeout'' stalled_retry
      = (((s, e), ev), r')"
    by (metis prod.exhaust)
  have "settle_branch demo_env background (sample_msg 9 4) stalled_retry = Terminal CauseFloorAge"
    by code_simp
  then have cause: "stCause s = CauseFloorAge" using Settle_result(1) [OF s] by simp
  have "seMons demo_env p = observeFloor 8 12 0 adopter_monitor" for p by (simp add: demo_env_def)
  then have "FloorAge (seMons demo_env p) = 20 * minute" for p
    by (simp add: FloorAge_def adopter_monitor_def)
  with breaker_acts_on_evidence [OF s cause] cause s show ?thesis by auto
qed

text \<open>
  Once the conjunction holds it keeps holding: while the monitor's observation stands, a later
  clock, a higher delivery count and a longer failure time never turn it off.
\<close>

theorem conjunction_persists:
  assumes "part_of_stall mons t msg delivered failingFor r" and "\<forall>p. monitor_ok (mons p)"
    and "t \<le> t'" and "delivered \<le> delivered'" and "failingFor \<le> failingFor'"
  shows "part_of_stall mons t' msg delivered' failingFor' r"
proof -
  obtain p where p: "rtMonitor r = Some p"
    using assms(1) by (cases "rtMonitor r") (simp_all add: part_of_stall_def)
  let ?m = "mons p"
  have st: "Stalled ?m t" using assms(1) p by (simp add: part_of_stall_def)
  then have "FloorAge ?m \<le> fst (snd (FloorStall ?m t))"
    by (auto simp: Stalled_def FloorAge_def)
  then have later: "FloorAge ?m \<le> fst (snd (FloorStall ?m t'))"
    using assms(3) by (rule floor_signal.trip_persists)
  have "Stalled ?m t'"
    using later floor_signal.tripped_is_stalled [OF _ later] assms(2)
    by (auto simp: Stalled_def FloorAge_def case_prod_unfold)
  then show ?thesis using assms(1,4,5) p by (auto simp: part_of_stall_def split: option.splits)
qed

lemma adopter_monitor_ok: "monitor_ok (observeFloor 8 12 0 adopter_monitor)"
  by (simp add: monitor_ok_def adopter_monitor_def FloorAge_def pollInterval_def quot_nonneg
      demo_monitor_value minFloorPoll_def maxFloorPoll_def duration_units)

theorem conjunction_persists_witness:
  "part_of_stall (seMons demo_env) (2 * hour) (sample_msg 9 4) 5 (90 * minute) stalled_retry"
proof (rule conjunction_persists)
  show "part_of_stall (seMons demo_env) hour (sample_msg 9 4) 4 hour stalled_retry" by code_simp
  show "\<forall>p. monitor_ok (seMons demo_env p)" by (simp add: demo_env_def adopter_monitor_ok)
qed (simp_all add: duration_units)

section \<open>Observing is a faithful dry run\<close>

definition set_breaker :: "int \<Rightarrow> retry \<Rightarrow> retry" where
  "set_breaker b r = r\<lparr>rtCfg := (rtCfg r)\<lparr>rcBreaker := b\<rparr>\<rparr>"

lemma set_breaker_simps [simp]:
  "rtMonitor (set_breaker b r) = rtMonitor r"
  "rtFailing (set_breaker b r) = rtFailing r"
  "rtFailureTTL (set_breaker b r) = rtFailureTTL r"
  "rtHaveQuarantined (set_breaker b r) = rtHaveQuarantined r"
  "rtQuarantined (set_breaker b r) = rtQuarantined r"
  "rtQuarantinedFloor (set_breaker b r) = rtQuarantinedFloor r"
  "rcBreaker (rtCfg (set_breaker b r)) = b"
  "rcMinDeliveries (rtCfg (set_breaker b r)) = rcMinDeliveries (rtCfg r)"
  "rcMaxDeliver (rtCfg (set_breaker b r)) = rcMaxDeliver (rtCfg r)"
  "rcCaptureReserve (rtCfg (set_breaker b r)) = rcCaptureReserve (rtCfg r)"
  by (simp_all add: set_breaker_def)

lemma noteFailure_set_breaker:
  "noteFailure order sq now (set_breaker b r) = map_prod id (set_breaker b) (noteFailure order sq now r)"
  by (simp add: noteFailure_def case_prod_unfold Let_def set_breaker_def)

lemma spend_set_breaker:
  "spendQuarantineBudget fl window now (set_breaker b r) =
     map_prod id (set_breaker b) (spendQuarantineBudget fl window now r)"
  by (simp add: spendQuarantineBudget_def set_breaker_def)

lemma part_of_stall_set_breaker [simp]:
  "part_of_stall mons t msg d f (set_breaker b r) = part_of_stall mons t msg d f r"
  "stall_seen mons t (set_breaker b r) = stall_seen mons t r"
  by (simp_all add: part_of_stall_def stall_seen_def split: option.split)

lemma shouldQuarantine_set_breaker:
  "shouldQuarantine mons t msg d f now (set_breaker b r) =
     map_prod id (set_breaker b) (shouldQuarantine mons t msg d f now r)"
  by (auto simp: shouldQuarantine_unfold spend_set_breaker case_prod_unfold Let_def split: option.split)

lemma judged_set_breaker:
  "judged env c msg (set_breaker b r) = map_prod id (set_breaker b) (judged env c msg r)"
  by (auto simp: judged_def judge_def interrupted_early_def brokerCapReached_def noteFailure_set_breaker
        shouldQuarantine_set_breaker case_prod_unfold Let_def split: option.split)

definition breaker_state :: "retry \<Rightarrow> bool \<times> time \<times> uint64" where
  "breaker_state r = (rtHaveQuarantined r, rtQuarantined r, rtQuarantinedFloor r)"

lemma breaker_state_frame [simp]:
  "breaker_state (forgetFailure sq r) = breaker_state r"
  "breaker_state (set_breaker b r) = breaker_state r"
  by (simp_all add: breaker_state_def forgetFailure_def set_breaker_def)

text \<open>
  C30. Observe mode is a faithful dry run of enforce mode. On the same delivery, in the same state and
  the same world, both modes report the same trip, the same stall and the same failure time, and spend
  the same quarantine budget; observe mode never dead-letters on the trip, and short of an exhausted
  ladder it makes no call on the message at all.
\<close>

theorem observe_is_dry_run:
  assumes "Settle env c msg reason (set_breaker BreakerObserve r) = (((so, eo), evo), ro)"
    and "Settle env c msg reason (set_breaker BreakerEnforce r) = (((se, ee), eve), re)"
  shows "stBreakerTripped so = stBreakerTripped se \<and> stFailingFor so = stFailingFor se \<and>
     stFloor so = stFloor se \<and> stFloorAge so = stFloorAge se \<and>
     breaker_state ro = breaker_state re \<and>
     (stCause se = CauseFloorAge) = stBreakerTripped se \<and>
     stCause so \<noteq> CauseFloorAge \<and>
     (ladderSpent r (NumDelivered msg) \<or> stOutcome so = OutcomeRetried \<and> calls_of evo = [])"
proof -
  note O = Settle_result [OF assms(1)] and E = Settle_result [OF assms(2)]
  have base: "base_settlement env c msg (set_breaker b r) = base_settlement env c msg r" for b
    by (simp add: base_settlement_def judged_set_breaker case_prod_unfold)
  have trip: "tripped env c msg (set_breaker b r) = tripped env c msg r" for b
    by (simp add: tripped_def judged_set_breaker)
  have base_trip: "stBreakerTripped (base_settlement env c msg r) = tripped env c msg r"
    by (simp add: base_settlement_def tripped_def case_prod_unfold)
  have spent: "ladderSpent (set_breaker b r) = ladderSpent r" for b
    by (simp add: ladderSpent_def fun_eq_iff)
  have bo: "settle_branch env c msg (set_breaker BreakerObserve r) =
     (if \<not> ladderSpent r (NumDelivered msg) then OnLadder
      else if interrupted_early c msg (set_breaker BreakerObserve r) then Deferred else Terminal CauseExhausted)"
    using breaker_modes by (simp add: settle_branch_def trip spent)
  have be: "(branch_cause (settle_branch env c msg (set_breaker BreakerEnforce r)) = CauseFloorAge) = tripped env c msg r"
    by (simp add: settle_branch_def trip)
  have "breaker_state ro = breaker_state (snd (judged env c msg r))"
    "breaker_state re = breaker_state (snd (judged env c msg r))"
    using O(5) E(5) by (simp_all add: judged_set_breaker)
  moreover have "stCause so \<noteq> CauseFloorAge" using O(1) by (simp add: bo)
  moreover have "ladderSpent r (NumDelivered msg) \<or> stOutcome so = OutcomeRetried \<and> calls_of evo = []"
    using O(1,3) by (simp add: bo branch_outcome_def branch_calls_def)
  ultimately show ?thesis using O(1) E(1) be by (simp add: base base_trip)
qed

theorem observe_is_dry_run_witness:
  "\<exists>so eo evo ro. Settle demo_env background (sample_msg 9 4) ''timeout'' (set_breaker BreakerObserve stalled_retry)
       = (((so, eo), evo), ro) \<and> calls_of evo = [] \<and> stOutcome so = OutcomeRetried"
proof -
  obtain so eo evo ro where o: "Settle demo_env background (sample_msg 9 4) ''timeout''
      (set_breaker BreakerObserve stalled_retry) = (((so, eo), evo), ro)"
    by (metis prod.exhaust)
  obtain se ee eve re where e: "Settle demo_env background (sample_msg 9 4) ''timeout''
      (set_breaker BreakerEnforce stalled_retry) = (((se, ee), eve), re)"
    by (metis prod.exhaust)
  have "\<not> ladderSpent stalled_retry (NumDelivered (sample_msg 9 4))" by code_simp
  with observe_is_dry_run [OF o e] o show ?thesis by auto
qed

section \<open>The invariant\<close>

lemma noteFailure_ok:
  "permuting order \<Longrightarrow> retry_ok r \<Longrightarrow> retry_ok (snd (noteFailure order sq now r))"
  using note_clock_ok [of order "rtFailing r" "rtFailureTTL r" sq now]
  by (simp add: noteFailure_def case_prod_unfold Let_def retry_ok_def)

lemma shouldQuarantine_ok:
  "retry_ok r \<Longrightarrow> retry_ok (snd (shouldQuarantine mons t msg d f now r))"
  by (simp add: retry_ok_def)

lemma forgetFailure_ok: "retry_ok r \<Longrightarrow> retry_ok (forgetFailure sq r)"
  by (simp add: retry_ok_def forgetFailure_def delete_clock_ok)

lemma judged_ok:
  "permuting (seOrder env) \<Longrightarrow> retry_ok r \<Longrightarrow> retry_ok (snd (judged env c msg r))"
  by (simp add: judged_def judge_def case_prod_unfold Let_def noteFailure_ok shouldQuarantine_ok
      split: option.split)

lemma terminate_state:
  "snd (terminate env c msg s reason r) \<in> {r, forgetFailure (streamSeq msg) r}"
  by (simp add: terminate_def Let_def case_prod_unfold split: option.split)

lemma DeadLetter_ok:
  assumes "permuting (seOrder env)" "retry_ok r"
  shows "retry_ok (snd (Retry_DeadLetter env c msg reason r))"
proof -
  let ?r1 = "if rtMonitor r = None then r else snd (noteFailure (seOrder env) (streamSeq msg) (seNow env) r)"
  have "retry_ok ?r1" using assms noteFailure_ok by simp
  moreover have "snd (Retry_DeadLetter env c msg reason r) \<in> {?r1, forgetFailure (streamSeq msg) ?r1}"
    using terminate_state by (auto simp: Retry_DeadLetter_def case_prod_unfold Let_def split: option.split)
  ultimately show ?thesis using forgetFailure_ok by auto
qed

text \<open>
  C31. Every operation keeps the invariant of a \<open>Retry\<close>: the configuration stays the validated one, the
  monitor the configured one, and the failure clocks keep distinct keys and never exceed 4096,
  whatever order the map is iterated in and whatever the world answers.
\<close>

theorem operations_keep_invariant:
  assumes "retry_ok r" and "permuting (seOrder env)"
  shows "retry_ok (snd (Settle env c msg reason r)) \<and> retry_ok (snd (Retry_DeadLetter env c msg reason r)) \<and>
     retry_ok (retry_attach name lg r)"
proof -
  obtain s e ev r' where s: "Settle env c msg reason r = (((s, e), ev), r')" by (metis prod.exhaust)
  have "retry_ok (snd (Settle env c msg reason r))"
    using Settle_result(5) [OF s] judged_ok [OF assms(2,1)] forgetFailure_ok by (simp add: s)
  moreover have "retry_ok (retry_attach name lg r)"
    using assms(1) by (simp add: retry_ok_def retry_attach_def)
  ultimately show ?thesis using DeadLetter_ok [OF assms(2,1)] by blast
qed

lemma demo_retry_ok: "retry_ok demo_retry"
proof -
  have "in_i64 (rcMaxDeliver demo_config)" by (simp add: demo_config_def in_i64_def)
  from fresh_retry_ok [OF demo_sensible this] show ?thesis by (simp add: demo_retry_def)
qed

theorem operations_keep_invariant_witness:
  "retry_ok (snd (Settle demo_env background (sample_msg 9 5) ''timeout'' demo_retry))"
  using operations_keep_invariant [OF demo_retry_ok, of demo_env] by (simp add: permuting_def demo_env_def)

section \<open>Every failing message ends\<close>

text \<open>
  The life of a message whose handler fails on every delivery: one \<open>Settle\<close> per delivery, and the
  broker redelivers as long as the settlement was a retry. \<open>world n\<close> is what the \<open>n\<close>-th delivery meets.
\<close>

fun lifetime ::
  "(int \<Rightarrow> settle_env \<times> ctx \<times> jmsg) \<Rightarrow> string \<Rightarrow> int list \<Rightarrow> retry \<Rightarrow> settlement list" where
  "lifetime world reason [] r = []"
| "lifetime world reason (n # ns) r =
     (let (env, c, msg) = world n; (((s, e), ev), r1) = Settle env c msg reason r
      in s # (if stOutcome s = OutcomeRetried then lifetime world reason ns r1 else []))"

lemma Settle_cfg: "rtCfg (snd (Settle env c msg reason r)) = rtCfg r"
proof -
  obtain s e ev r' where s: "Settle env c msg reason r = (((s, e), ev), r')" by (metis prod.exhaust)
  show ?thesis using Settle_result(5) [OF s] judged_cfg [of env c msg r] by (simp add: s)
qed

lemma Settle_monitor: "rtMonitor (snd (Settle env c msg reason r)) = rtMonitor r"
proof -
  obtain s e ev r' where s: "Settle env c msg reason r = (((s, e), ev), r')" by (metis prod.exhaust)
  show ?thesis using Settle_result(5) [OF s] by (simp add: s judged_def)
qed

lemma cap_is_terminal:
  assumes "cfg_ok (rtCfg r)" "rcMaxDeliver (rtCfg r) \<le> NumDelivered msg"
  shows "stOutcome (fst (fst (fst (Settle env c msg reason r)))) \<noteq> OutcomeRetried"
proof -
  obtain s e ev r' where s: "Settle env c msg reason r = (((s, e), ev), r')" by (metis prod.exhaust)
  have pos: "0 < rcMaxDeliver (rtCfg r)" "0 \<le> rcCaptureReserve (rtCfg r)"
    and "in_i64 (rcMaxDeliver (rtCfg r) - rcCaptureReserve (rtCfg r))"
    using assms(1) by (auto simp: cfg_ok_def in_i64_def)
  then have cap: "brokerCapReached r (NumDelivered msg)" "ladderSpent r (NumDelivered msg)"
    using assms(2) by (auto simp: brokerCapReached_def ladderSpent_def wrap64_id)
  then have "\<not> interrupted_early c msg r" by (simp add: interrupted_early_def)
  then obtain cs where "settle_branch env c msg r = Terminal cs"
    using cap(2) that by (cases "tripped env c msg r \<and> rcBreaker (rtCfg r) = BreakerEnforce")
      (auto simp: settle_branch_def)
  then have "stOutcome s \<noteq> OutcomeRetried"
    using Settle_result(1) [OF s] cap(1) by (simp add: branch_outcome_def classify_def)
  then show ?thesis by (simp add: s)
qed

lemma lifetime_ends:
  assumes "cfg_ok (rtCfg r)" "\<forall>n \<in> {1..rcMaxDeliver (rtCfg r)}. NumDelivered (snd (snd (world n))) = n"
    and "1 \<le> k" "k \<le> rcMaxDeliver (rtCfg r)"
  shows "let out = lifetime world reason [k..rcMaxDeliver (rtCfg r)] r
         in out \<noteq> [] \<and> stOutcome (last out) \<noteq> OutcomeRetried \<and>
            (\<forall>s \<in> set (butlast out). stOutcome s = OutcomeRetried)"
  using assms
proof (induction "nat (rcMaxDeliver (rtCfg r) - k)" arbitrary: k r)
  case 0
  then have k: "[k..rcMaxDeliver (rtCfg r)] = [k]" "k = rcMaxDeliver (rtCfg r)" by simp_all
  obtain env c msg where w: "world k = (env, c, msg)" by (metis prod.exhaust)
  obtain s e ev r' where s: "Settle env c msg reason r = (((s, e), ev), r')" by (metis prod.exhaust)
  have "NumDelivered msg = k" using bspec [OF 0(3), of k] k(2) 0(4) w by simp
  then have "stOutcome s \<noteq> OutcomeRetried"
    using cap_is_terminal [OF 0(2), of msg env c reason] k(2) by (simp add: s)
  then show ?case by (simp add: k(1) w s)
next
  case (Suc n)
  then have k: "[k..rcMaxDeliver (rtCfg r)] = k # [k + 1..rcMaxDeliver (rtCfg r)]"
    by (simp add: upto_rec1)
  obtain env c msg where w: "world k = (env, c, msg)" by (metis prod.exhaust)
  obtain s e ev r' where s: "Settle env c msg reason r = (((s, e), ev), r')" by (metis prod.exhaust)
  have cfg: "rtCfg r' = rtCfg r" using Settle_cfg [of env c msg reason r] by (simp add: s)
  show ?case
  proof (cases "stOutcome s = OutcomeRetried")
    case True
    have "let out = lifetime world reason [k + 1..rcMaxDeliver (rtCfg r')] r'
         in out \<noteq> [] \<and> stOutcome (last out) \<noteq> OutcomeRetried \<and>
            (\<forall>s \<in> set (butlast out). stOutcome s = OutcomeRetried)"
      using Suc by (intro Suc.hyps(1)) (simp_all add: cfg)
    then show ?thesis using True by (simp add: k w s cfg Let_def)
  next
    case False
    then show ?thesis by (simp add: k w s)
  qed
qed

text \<open>A delivery that can capture: its handler was not interrupted, the publisher accepts the copy and the
  server confirms the acknowledgement.\<close>

definition can_capture :: "settle_env \<times> ctx \<times> jmsg \<Rightarrow> string \<Rightarrow> retry \<Rightarrow> bool" where
  "can_capture w reason r =
     (case w of (env, c, msg) \<Rightarrow> \<not> IsInterrupted c \<and> confirmed c msg \<and>
        (\<forall>cs \<in> {CauseExhausted, CauseFloorAge}. copied env c msg cs reason r))"

lemma can_capture_cfg: "rtCfg r1 = rtCfg r \<Longrightarrow> can_capture w reason r1 = can_capture w reason r"
  by (cases w) (simp add: can_capture_def config_only(3) [of r1 r])

lemma before_the_cap:
  assumes "\<not> brokerCapReached r (NumDelivered msg)"
  shows "stOutcome (fst (fst (fst (Settle env c msg reason r)))) \<in> {OutcomeRetried, OutcomeDeadLettered}"
proof -
  obtain s e ev r' where s: "Settle env c msg reason r = (((s, e), ev), r')" by (metis prod.exhaust)
  show ?thesis
    using Settle_result(1) [OF s] assms
    by (auto simp: s branch_outcome_def classify_def split: branch.split)
qed

lemma ladder_end_captures:
  assumes "ladderSpent r (NumDelivered msg)" "can_capture (env, c, msg) reason r"
  shows "stOutcome (fst (fst (fst (Settle env c msg reason r)))) = OutcomeDeadLettered"
proof -
  obtain s e ev r' where s: "Settle env c msg reason r = (((s, e), ev), r')" by (metis prod.exhaust)
  have "\<not> interrupted_early c msg r" using assms(2) by (simp add: can_capture_def interrupted_early_def)
  then show ?thesis
    using Settle_result(1) [OF s] assms
    by (auto simp: s branch_outcome_def classify_def settle_branch_def can_capture_def)
qed

text \<open>When the delivery that spends the ladder can capture, that one or an earlier one dead-letters,
  whatever happened on the earlier ones.\<close>

lemma lifetime_captures:
  assumes "cfg_ok (rtCfg r)" "d = rcMaxDeliver (rtCfg r) - rcCaptureReserve (rtCfg r)"
    and "\<forall>n \<in> {1..rcMaxDeliver (rtCfg r)}. NumDelivered (snd (snd (world n))) = n"
    and "can_capture (world d) reason r" "1 \<le> k" "k \<le> d"
  shows "let out = lifetime world reason [k..rcMaxDeliver (rtCfg r)] r
         in out \<noteq> [] \<and> int (length out) \<le> d - k + 1 \<and> stOutcome (last out) = OutcomeDeadLettered"
  using assms
proof (induction "nat (d - k)" arbitrary: k r)
  case 0
  then have kd: "k = d" by simp
  obtain env c msg where w: "world d = (env, c, msg)" by (metis prod.exhaust)
  obtain s e ev r' where s: "Settle env c msg reason r = (((s, e), ev), r')" by (metis prod.exhaust)
  have pos: "0 \<le> rcCaptureReserve (rtCfg r)" "in_i64 (rcMaxDeliver (rtCfg r))" using 0(2) by (simp_all add: cfg_ok_def)
  then have "in_i64 d" using 0(3,6) kd unfolding in_i64_def by linarith
  have n: "NumDelivered msg = d" using bspec [OF 0(4), of d] 0(3,6) kd w pos(1) by simp
  have "ladderSpent r (NumDelivered msg)"
    unfolding ladderSpent_def n 0(3) [symmetric] wrap64_id [OF \<open>in_i64 d\<close>] using 0(6) kd by simp
  then have "stOutcome s = OutcomeDeadLettered" using ladder_end_captures [of r msg env c reason] 0(5) w s by simp
  moreover have "[d..rcMaxDeliver (rtCfg r)] = d # [d + 1..rcMaxDeliver (rtCfg r)]"
    using 0(3) pos by (intro upto_rec1) simp
  ultimately show ?case by (simp add: kd w s)
next
  case (Suc x)
  then have kd: "k < d" by simp
  have res: "0 \<le> rcCaptureReserve (rtCfg r)" using Suc(3) by (simp add: cfg_ok_def)
  then have k: "[k..rcMaxDeliver (rtCfg r)] = k # [k + 1..rcMaxDeliver (rtCfg r)]"
    using Suc(4) kd by (intro upto_rec1) simp
  obtain env c msg where w: "world k = (env, c, msg)" by (metis prod.exhaust)
  obtain s e ev r' where s: "Settle env c msg reason r = (((s, e), ev), r')" by (metis prod.exhaust)
  have cfg: "rtCfg r' = rtCfg r" using Settle_cfg [of env c msg reason r] by (simp add: s)
  have "NumDelivered msg = k" using bspec [OF Suc(5), of k] Suc(4,7) kd res w by simp
  then have "\<not> brokerCapReached r (NumDelivered msg)" using Suc(4) kd res by (simp add: brokerCapReached_def)
  from before_the_cap [OF this, of env c reason] have "stOutcome s \<in> {OutcomeRetried, OutcomeDeadLettered}"
    by (simp add: s)
  moreover have "let out = lifetime world reason [k + 1..rcMaxDeliver (rtCfg r')] r'
         in out \<noteq> [] \<and> int (length out) \<le> d - (k + 1) + 1 \<and> stOutcome (last out) = OutcomeDeadLettered"
    using Suc kd by (intro Suc.hyps(1)) (simp_all add: cfg can_capture_cfg [OF cfg])
  ultimately show ?case using kd by (auto simp: k w s cfg Let_def)
qed

text \<open>
  C2. Every failing message ends within the delivery cap. Whatever happens on the way (captures that
  fail, acknowledgements that are lost, cancelled handlers, trips of the breaker), a message whose
  handler fails on every delivery is retried until some delivery at or before \<open>MaxDeliver\<close> settles it
  as dead-lettered, stranded or uncertain; it is never left waiting for a redelivery that does not come.
\<close>

theorem every_failing_message_ends:
  assumes "cfg_ok (rtCfg r)" and "\<forall>n \<in> {1..rcMaxDeliver (rtCfg r)}. NumDelivered (snd (snd (world n))) = n"
  shows "lifetime world reason [1..rcMaxDeliver (rtCfg r)] r \<noteq> [] \<and>
     stOutcome (last (lifetime world reason [1..rcMaxDeliver (rtCfg r)] r)) \<noteq> OutcomeRetried \<and>
     (\<forall>s \<in> set (butlast (lifetime world reason [1..rcMaxDeliver (rtCfg r)] r)). stOutcome s = OutcomeRetried)"
proof -
  have "1 \<le> rcMaxDeliver (rtCfg r)" using assms(1) by (auto simp: cfg_ok_def)
  from lifetime_ends [OF assms _ this] show ?thesis by (simp add: Let_def)
qed

text \<open>A world whose dead-letter publish always fails.\<close>

definition broken_retry :: retry where
  "broken_retry = demo_retry\<lparr>rtCfg := (rtCfg demo_retry)\<lparr>
     rcPublisher := Some (\<lambda>_ _. Inl (NewErr ''no stream''))\<rparr>\<rparr>"

definition demo_world :: "int \<Rightarrow> settle_env \<times> ctx \<times> jmsg" where
  "demo_world n = (demo_env, background, sample_msg 9 (word_of_int n))"

theorem every_failing_message_ends_witness:
  "lifetime demo_world ''timeout'' [1..6] broken_retry \<noteq> [] \<and>
   stOutcome (last (lifetime demo_world ''timeout'' [1..6] broken_retry)) \<noteq> OutcomeRetried"
proof -
  have cfg: "cfg_ok (rtCfg broken_retry)" "rcMaxDeliver (rtCfg broken_retry) = 6"
    using demo_retry_ok by (auto simp: retry_ok_def cfg_ok_def broken_retry_def demo_retry_def
        fresh_retry_def with_defaults_def demo_config_def)
  have "\<forall>n \<in> set [1..6]. NumDelivered (snd (snd (demo_world n))) = n" by code_simp
  then have "\<forall>n \<in> {1..rcMaxDeliver (rtCfg broken_retry)}. NumDelivered (snd (snd (demo_world n))) = n"
    by (simp add: cfg(2))
  from every_failing_message_ends [OF cfg(1) this, of "''timeout''"] show ?thesis by (simp add: cfg(2))
qed

section \<open>Where the ladder ends\<close>

text \<open>
  C34. The delivery that dead-letters is the one \<open>Schedule\<close> computes. Without a monitor and without
  interruption, when the copy and its acknowledgement succeed, a delivery is dead-lettered exactly when
  it has reached the dead-letter delivery of the schedule the \<open>Retry\<close> expects (the very number
  \<open>Validate\<close> bounds the wait to), and is left alone on the ladder before it.
\<close>

theorem dead_letter_delivery_matches_schedule:
  assumes "rtMonitor r = None" and "\<not> IsInterrupted c" and "0 < NumDelivered msg"
    and "copied env c msg CauseExhausted reason r" and "confirmed c msg"
    and "Settle env c msg reason r = (((s, e), ev), r')"
  shows "stOutcome s = (if DeadLetterDelivery (expectations mons r) \<le> NumDelivered msg
           then OutcomeDeadLettered else OutcomeRetried) \<and>
     (calls_of ev = []) = (NumDelivered msg < DeadLetterDelivery (expectations mons r)) \<and>
     e = None"
proof -
  have t: "\<not> tripped env c msg r"
    using assms(1) by (simp add: tripped_def judged_def judge_def)
  have i: "\<not> interrupted_early c msg r" using assms(2) by (simp add: interrupted_early_def)
  have spent: "ladderSpent r (NumDelivered msg) \<longleftrightarrow> DeadLetterDelivery (expectations mons r) \<le> NumDelivered msg"
    using assms(1,3) by (simp add: ladderSpent_def DeadLetterDelivery_def expectations_def Let_def zero_schedule_def)
  then have b: "settle_branch env c msg r =
      (if DeadLetterDelivery (expectations mons r) \<le> NumDelivered msg then Terminal CauseExhausted else OnLadder)"
    using t i by (simp add: settle_branch_def)
  have ne: "terminal_calls env c msg CauseExhausted reason r \<noteq> []"
    using assms(4) by (simp add: terminal_calls_def)
  note res = Settle_result [OF assms(6)]
  show ?thesis
    using res(1-3) assms(4,5) ne
    by (auto simp: b branch_outcome_def branch_calls_def classify_def)
qed

text \<open>The state of a \<open>Retry\<close> without a monitor, for evaluation.\<close>

definition plain_retry :: retry where
  "plain_retry = fresh_retry (\<lambda>_. adopter_monitor)
     (with_defaults (demo_config\<lparr>rcMonitor := None, rcBreaker := BreakerObserve\<rparr>))"

theorem dead_letter_delivery_matches_schedule_witness:
  "\<exists>s e ev r'. Settle demo_env background (sample_msg 9 5) ''timeout'' plain_retry = (((s, e), ev), r') \<and>
     stOutcome s = OutcomeDeadLettered"
proof -
  obtain s e ev r' where s: "Settle demo_env background (sample_msg 9 5) ''timeout'' plain_retry
      = (((s, e), ev), r')" by (metis prod.exhaust)
  have "copied demo_env background (sample_msg 9 5) CauseExhausted ''timeout'' plain_retry"
    using capture_shape [of demo_env "withoutCancel background" "sample_msg 9 5" CauseExhausted "''timeout''" plain_retry]
    by (auto simp: copied_def plain_retry_def fresh_retry_def with_defaults_def demo_config_def)
  moreover have "rtMonitor plain_retry = None" by code_simp
  moreover have "\<not> IsInterrupted background" by code_simp
  moreover have "0 < NumDelivered (sample_msg 9 5)" by code_simp
  moreover have "confirmed background (sample_msg 9 5)" by (simp add: confirmed_def sample_msg_def)
  moreover have "DeadLetterDelivery (expectations (\<lambda>_. adopter_monitor) plain_retry) \<le> NumDelivered (sample_msg 9 5)"
    by code_simp
  ultimately show ?thesis
    using dead_letter_delivery_matches_schedule [OF _ _ _ _ _ s, of "\<lambda>_. adopter_monitor"] s by auto
qed

section \<open>Permanent failures\<close>

text \<open>
  C33. \<open>Retry.DeadLetter\<close> is the non-lossy replacement of a bare Term: it always attempts the capture,
  never leaves the ladder to decide, acknowledges only after the publisher accepted the copy, returns
  no error exactly when the message is dead-lettered, never calls anything stranded or uncertain while
  deliveries remain, and reports the settlement once, with cause permanent.
\<close>

theorem DeadLetter_is_lossless:
  assumes "Retry_DeadLetter env c msg reason r = (((s, e), ev), r')"
  shows "stCause s = CausePermanent \<and>
     calls_of ev = terminal_calls env c msg CausePermanent reason r \<and>
     stOutcome s = classify (copied env c msg CausePermanent reason r) (confirmed c msg)
                     (brokerCapReached r (NumDelivered msg)) \<and>
     (e = None) = (stOutcome s = OutcomeDeadLettered) \<and>
     settles_of ev = (if rcOnSettle (rtCfg r) then [s] else []) \<and>
     (\<forall>pre call post. calls_of ev = pre @ call # post \<and> disposes call \<longrightarrow>
        (\<exists>pubCtx out ack. pre = [CallPublish pubCtx out] \<and> post = [] \<and>
           the (rcPublisher (rtCfg r)) pubCtx out = Inr ack \<and> nmData out = msgData msg \<and>
           nmSubject out = rcDLQSubject (rtCfg r)))"
proof -
  obtain fl age d r1 where st: "(case rtMonitor r of
               None \<Rightarrow> (0, 0, 0, r)
             | Some p \<Rightarrow>
                 let (fl, age, st) = FloorStall (seMons env p) (seMonNow env);
                     (d, r1) = noteFailure (seOrder env) (streamSeq msg) (seNow env) r
                 in (fl, age, d, r1)) = (fl, age, d, r1)" (is "?start = _")
    by (cases ?start) auto
  have "rtCfg (snd (snd (snd ?start))) = rtCfg r"
    by (simp add: case_prod_unfold Let_def split: option.split)
  then have cfg: "rtCfg r1 = rtCfg r" by (simp only: st snd_conv)
  let ?s = "\<lparr>stOutcome = OutcomeNone, stCause = CausePermanent, stDelivered = NumDelivered msg, stFloor = fl,
               stFloorAge = age, stFailingFor = d, stBreakerTripped = False, stCaptured = False\<rparr>"
  have t: "terminate env c msg ?s reason r1 = (((s, e), ev), r')"
    using assms unfolding Retry_DeadLetter_def st by simp
  have "\<not> stCaptured ?s" by simp
  note res = terminate_result [OF t this, unfolded config_only [OF cfg] cfg]
  have "(\<exists>pubCtx out ack. pre = [CallPublish pubCtx out] \<and> post = [] \<and>
           the (rcPublisher (rtCfg r)) pubCtx out = Inr ack \<and> nmData out = msgData msg \<and>
           nmSubject out = rcDLQSubject (rtCfg r))"
    if "calls_of ev = pre @ call # post" "disposes call" for pre call post
    using terminal_calls_safe [of env c msg CausePermanent reason r pre call post] that res(3) by auto
  then show ?thesis using res by (auto simp: classify_eq)
qed

theorem DeadLetter_is_lossless_witness:
  "\<exists>s e ev r'. Retry_DeadLetter demo_env background (sample_msg 9 1) ''unparsable'' broken_retry
     = (((s, e), ev), r') \<and> stCause s = CausePermanent \<and> (e = None) = (stOutcome s = OutcomeDeadLettered)"
proof -
  obtain s e ev r' where s: "Retry_DeadLetter demo_env background (sample_msg 9 1) ''unparsable'' broken_retry
     = (((s, e), ev), r')" by (metis prod.exhaust)
  from DeadLetter_is_lossless [OF s] s show ?thesis by auto
qed

end
