(* ===== verification/DrainConn.thy ===== *)
theory DrainConn
  imports GoPrelude
begin

text \<open>
  \<open>drain.go\<close> and \<open>waitTimedOut\<close> of \<open>shutdown.go\<close>: the classification of fetch and subscribe errors,
  the completion-preferring bounded wait, and \<open>Drain\<close>. A \<open>*nats.Conn\<close> is the record of what its
  methods answer: whether it is closed on entry, what \<open>Drain\<close> returns, and when, counted from the
  start of the drain, its CLOSED status event is delivered. What \<open>Drain\<close> does to the connection is a
  trace of \<open>conn_call\<close>s.

  The three error predicates are interpreted as \<open>error_class\<close>es.
\<close>

section \<open>Error classes\<close>

definition transientFetchErrs :: "sentinel list" where
  "transientFetchErrs = [NatsErrConnectionClosed, NatsErrConnectionDraining, NatsErrDisconnected,
     NatsErrNoResponders, NatsErrFetchDisconnected, NatsErrConsumerLeadershipChanged]"

definition IsTransientFetchErr :: "goerr option \<Rightarrow> bool" where
  "IsTransientFetchErr err =
     (if err = None then False else list_ex (\<lambda>target. opt_is err target) transientFetchErrs)"

definition IsTransientSubscribeErr :: "goerr option \<Rightarrow> bool" where
  "IsTransientSubscribeErr err \<longleftrightarrow> IsTransientFetchErr err \<or> opt_is err NatsErrStreamNotFound \<or>
     opt_is err NatsErrTimeout \<or> opt_is err CtxDeadlineExceeded"

definition IsShutdownFetchErr :: "ctx \<Rightarrow> goerr option \<Rightarrow> bool" where
  "IsShutdownFetchErr c err \<longleftrightarrow> ctxErr c \<noteq> None \<and>
     (opt_is err NatsErrConnectionClosed \<or> opt_is err NatsErrConnectionDraining)"

interpretation fetch_err: error_class IsTransientFetchErr
  by unfold_locales (simp_all add: IsTransientFetchErr_def list_ex_iff)

interpretation subscribe_err: error_class IsTransientSubscribeErr
  by unfold_locales (simp_all add: IsTransientSubscribeErr_def fetch_err.not_nil fetch_err.wrapped)

interpretation shutdown_fetch_err: error_class "IsShutdownFetchErr c" for c
  by unfold_locales (simp_all add: IsShutdownFetchErr_def)

text \<open>
  The classes nest and stay honest under wrapping. A shutdown error is a transient fetch error and
  a transient fetch error a transient subscribe error; a timeout is transient on the subscribe path
  only; a deleted consumer that is nothing else is in none of them; without a cancelled context nothing
  is a shutdown error; and no number of wrappings with context moves an error between classes.
\<close>

theorem error_classes_nest:
  "{e. IsShutdownFetchErr c e} \<subseteq> {e. IsTransientFetchErr e} \<and>
   {e. IsTransientFetchErr e} \<subseteq> {e. IsTransientSubscribeErr e} \<and>
   IsTransientSubscribeErr (Some (Sentinel NatsErrTimeout)) \<and>
   \<not> IsTransientFetchErr (Some (Sentinel NatsErrTimeout)) \<and>
   \<not> IsTransientFetchErr (Some (Sentinel CtxDeadlineExceeded)) \<and>
   \<not> IsTransientSubscribeErr (Some (Sentinel NatsErrConsumerDeleted)) \<and>
   \<not> IsShutdownFetchErr background err \<and>
   IsTransientFetchErr (Some (fold Errorf ms e)) = IsTransientFetchErr (Some e) \<and>
   IsTransientSubscribeErr (Some (fold Errorf ms e)) = IsTransientSubscribeErr (Some e) \<and>
   IsShutdownFetchErr c (Some (fold Errorf ms e)) = IsShutdownFetchErr c (Some e)"
  unfolding fetch_err.wrapped_many subscribe_err.wrapped_many shutdown_fetch_err.wrapped_many
  by (auto simp: IsShutdownFetchErr_def IsTransientFetchErr_def IsTransientSubscribeErr_def
      transientFetchErrs_def background_def opt_is_def split: option.splits)

section \<open>The bounded wait\<close>

text \<open>
  How the scheduler runs the wait, in time since it began: when the select is taken, which ready case
  it picks (pseudo-randomly, when both are), and when the second look at the signal happens.
\<close>

record wait_sched =
  wsWoke :: time
  wsPickDone :: bool
  wsRecheck :: time

definition signalled :: "time option \<Rightarrow> time \<Rightarrow> bool" where
  "signalled done_at t = (case done_at of None \<Rightarrow> False | Some d \<Rightarrow> d \<le> t)"

text \<open>A select is only taken once one of its cases is ready, and time does not run backwards.\<close>

definition sched_ok :: "time option \<Rightarrow> duration \<Rightarrow> wait_sched \<Rightarrow> bool" where
  "sched_ok done_at timeout w \<longleftrightarrow>
     (signalled done_at (wsWoke w) \<or> timeout \<le> wsWoke w) \<and> wsWoke w \<le> wsRecheck w"

text \<open>The contract of a wait that prefers completion: \<open>w done_at timeout sched\<close> reports a timeout.\<close>

locale bounded_wait =
  fixes w :: "time option \<Rightarrow> duration \<Rightarrow> wait_sched \<Rightarrow> bool"
  assumes reported: "sched_ok d t s \<Longrightarrow> w d t s \<Longrightarrow> t \<le> wsWoke s \<and> \<not> signalled d (wsRecheck s)"
begin

lemma in_time: "sched_ok d t s \<Longrightarrow> signalled d t \<Longrightarrow> \<not> w d t s"
  using reported [of d t s] by (auto simp: sched_ok_def signalled_def split: option.splits)

lemma never_done: "sched_ok None t s \<Longrightarrow> w None t s \<Longrightarrow> t \<le> wsRecheck s"
  using reported [of None t s] by (auto simp: sched_ok_def)

end

definition waitTimedOut :: "time option \<Rightarrow> duration \<Rightarrow> wait_sched \<Rightarrow> bool" where
  "waitTimedOut done_at timeout w =
     (if signalled done_at (wsWoke w) \<and> (\<not> timeout \<le> wsWoke w \<or> wsPickDone w) then False
      else \<not> signalled done_at (wsRecheck w))"

interpretation group_wait: bounded_wait waitTimedOut
  by unfold_locales (auto simp: sched_ok_def waitTimedOut_def signalled_def split: option.splits if_splits)

text \<open>
  \<open>waitTimedOut\<close> prefers completion: whatever the scheduler does, a signal that arrived within the
  timeout is never reported as a timeout, and a reported timeout means that the timeout had really
  passed and that the signal had not come even by the second look.
\<close>

theorem waitTimedOut_prefers_completion:
  assumes "sched_ok done_at timeout w"
  shows "(signalled done_at timeout \<longrightarrow> \<not> waitTimedOut done_at timeout w) \<and>
     (waitTimedOut done_at timeout w \<longrightarrow> timeout \<le> wsWoke w \<and> \<not> signalled done_at (wsRecheck w))"
  using group_wait.in_time [OF assms] group_wait.reported [OF assms] by blast

theorem waitTimedOut_prefers_completion_witness:
  "\<not> waitTimedOut (Some 5) 5 \<lparr>wsWoke = 6, wsPickDone = False, wsRecheck = 6\<rparr>"
proof -
  have "sched_ok (Some 5) 5 \<lparr>wsWoke = 6, wsPickDone = False, wsRecheck = 6\<rparr>"
    by (simp add: sched_ok_def)
  from waitTimedOut_prefers_completion [OF this] show ?thesis by (simp add: signalled_def)
qed

section \<open>Drain\<close>

record nats_conn =
  ncIsClosed :: bool
  ncDrainAnswer :: "goerr option"
  ncClosedAt :: "time option"
  ncOptDrainTimeout :: duration
  ncSched :: wait_sched

datatype conn_call = CallStatusChanged | CallDrain | CallClose | CallRemoveListener

definition Drain ::
  "nats_conn option \<Rightarrow> string \<Rightarrow> duration \<Rightarrow> goerr option \<times> conn_call list \<times> log_entry list" where
  "Drain nc name timeout =
     (case nc of
        None \<Rightarrow> (None, [], [])
      | Some c \<Rightarrow>
        if ncIsClosed c then (None, [], [])
        else case ncDrainAnswer c of
          Some err \<Rightarrow>
            if errors_is err NatsErrConnectionClosed
            then (None, [CallStatusChanged, CallDrain, CallRemoveListener], [])
            else (Some (Errorf (''nuts: drain '' @ name) err),
                  [CallStatusChanged, CallDrain, CallClose, CallRemoveListener],
                  [LogEntry LevelWarn name ''nuts: NATS drain failed; closing''])
        | None \<Rightarrow>
            if \<not> waitTimedOut (ncClosedAt c) timeout (ncSched c)
            then (None, [CallStatusChanged, CallDrain, CallRemoveListener],
                  [LogEntry LevelInfo name ''nuts: NATS drained''])
            else (Some (Errorf name (Sentinel ErrDrainTimeout)),
                  [CallStatusChanged, CallDrain, CallClose, CallRemoveListener],
                  [LogEntry LevelWarn name ''nuts: NATS drain timed out before close'']))"

text \<open>A connection is closed when \<open>Drain\<close> returns: it was closed before, its drain found it closed, it
  reached CLOSED during the wait, or \<open>Drain\<close> force-closed it.\<close>

definition closed_on_return :: "nats_conn \<Rightarrow> conn_call list \<Rightarrow> bool" where
  "closed_on_return c calls \<longleftrightarrow> ncIsClosed c \<or> opt_is (ncDrainAnswer c) NatsErrConnectionClosed \<or>
     signalled (ncClosedAt c) (wsRecheck (ncSched c)) \<or> CallClose \<in> set calls"

text \<open>
  C25. \<open>Drain\<close> never leaves an ambiguous connection. It always returns with the connection closed; it
  returns nil exactly when the connection closed by itself and an error exactly when it was
  force-closed; the error is \<open>ErrDrainTimeout\<close> when the drain started and the close did not come, and
  otherwise wraps the failure of the drain; the CLOSED listener is registered before the drain starts
  and removed last; and a close that comes within the timeout is never reported as a failure.
\<close>

theorem Drain_always_closes:
  assumes "sched_ok (ncClosedAt c) timeout (ncSched c)"
    and "Drain (Some c) name timeout = (err, calls, logs)"
  shows "closed_on_return c calls \<and>
     (err = None) = (CallClose \<notin> set calls) \<and>
     (calls = [] \<or> hd calls = CallStatusChanged \<and> calls ! 1 = CallDrain \<and> last calls = CallRemoveListener) \<and>
     (ncDrainAnswer c = None \<longrightarrow> (err \<noteq> None) = opt_is err ErrDrainTimeout) \<and>
     (ncDrainAnswer c = None \<and> signalled (ncClosedAt c) timeout \<longrightarrow> err = None) \<and>
     (err \<noteq> None \<and> ncDrainAnswer c \<noteq> None \<longrightarrow> opt_is err t = opt_is (ncDrainAnswer c) t)"
  using assms
  by (auto simp: Drain_def closed_on_return_def waitTimedOut_def sched_ok_def signalled_def
      split: if_splits option.splits)

definition slow_conn :: nats_conn where
  "slow_conn = \<lparr>ncIsClosed = False, ncDrainAnswer = None, ncClosedAt = None, ncOptDrainTimeout = 0,
     ncSched = \<lparr>wsWoke = 12 * second, wsPickDone = False, wsRecheck = 12 * second\<rparr>\<rparr>"

theorem Drain_always_closes_witness:
  "closed_on_return slow_conn (fst (snd (Drain (Some slow_conn) ''worker'' (11 * second)))) \<and>
   opt_is (fst (Drain (Some slow_conn) ''worker'' (11 * second))) ErrDrainTimeout"
proof -
  have s: "sched_ok (ncClosedAt slow_conn) (11 * second) (ncSched slow_conn)"
    by (simp add: sched_ok_def slow_conn_def second_def)
  obtain err calls logs where d: "Drain (Some slow_conn) ''worker'' (11 * second) = (err, calls, logs)"
    by (metis prod.exhaust)
  moreover have "ncDrainAnswer slow_conn = None" "err \<noteq> None"
    using d by (auto simp: slow_conn_def Drain_def waitTimedOut_def signalled_def)
  ultimately show ?thesis using Drain_always_closes [OF s d] by (cases err) auto
qed

text \<open>Draining no connection, or a closed one, does nothing.\<close>

lemma Drain_noop [simp]:
  "Drain None name timeout = (None, [], [])"
  "ncIsClosed c \<Longrightarrow> Drain (Some c) name timeout = (None, [], [])"
  by (simp_all add: Drain_def)

end
