(* ===== verification/Transition.thy ===== *)
theory Transition
  imports Main
begin

text \<open>
  The two contracts the interleaving models of the library are verified by. \<open>inductive_invariant\<close>: a
  property that holds initially and that every step keeps holds in every reachable state and along every
  run. \<open>ranked_progress\<close>: a part of a system whose own steps are enabled as long as it is busy and each
  lower a rank that nothing else raises, so that it can always finish and takes boundedly many steps
  before it does, whatever the rest of the system does in between.
\<close>

section \<open>Invariants\<close>

inductive reachable :: "('s \<Rightarrow> bool) \<Rightarrow> ('s \<Rightarrow> 's \<Rightarrow> bool) \<Rightarrow> 's \<Rightarrow> bool" for init step where
  start: "init s \<Longrightarrow> reachable init step s"
| after: "reachable init step s \<Longrightarrow> step s s' \<Longrightarrow> reachable init step s'"

locale inductive_invariant =
  fixes init :: "'s \<Rightarrow> bool"
    and step :: "'s \<Rightarrow> 's \<Rightarrow> bool"
    and inv :: "'s \<Rightarrow> bool"
  assumes initially: "init s \<Longrightarrow> inv s"
    and preserved: "inv s \<Longrightarrow> step s s' \<Longrightarrow> inv s'"
begin

lemma always: "reachable init step s \<Longrightarrow> inv s"
  by (induction rule: reachable.induct) (auto intro: initially preserved)

lemma along: "rtranclp step s s' \<Longrightarrow> inv s \<Longrightarrow> inv s'"
  by (induction rule: rtranclp_induct) (auto intro: preserved)

end

section \<open>Progress\<close>

text \<open>\<open>counted step own n s s'\<close>: a run from \<open>s\<close> to \<open>s'\<close> through busy states in which \<open>n\<close> of the steps are \<open>own\<close>.\<close>

inductive counted :: "('s \<Rightarrow> 's \<Rightarrow> bool) \<Rightarrow> ('s \<Rightarrow> 's \<Rightarrow> bool) \<Rightarrow> ('s \<Rightarrow> bool) \<Rightarrow> nat \<Rightarrow> 's \<Rightarrow> 's \<Rightarrow> bool"
  for step own busy where
  none: "counted step own busy 0 s s"
| mine: "counted step own busy n s s' \<Longrightarrow> busy s' \<Longrightarrow> own s' s'' \<Longrightarrow> counted step own busy (Suc n) s s''"
| other: "counted step own busy n s s' \<Longrightarrow> busy s' \<Longrightarrow> step s' s'' \<Longrightarrow> \<not> own s' s'' \<Longrightarrow> counted step own busy n s s''"

locale ranked_progress =
  fixes step :: "'s \<Rightarrow> 's \<Rightarrow> bool"
    and own :: "'s \<Rightarrow> 's \<Rightarrow> bool"
    and busy :: "'s \<Rightarrow> bool"
    and rank :: "'s \<Rightarrow> nat"
  assumes enabled: "busy s \<Longrightarrow> \<exists>s'. own s s'"
    and lowers: "busy s \<Longrightarrow> own s s' \<Longrightarrow> rank s' < rank s"
    and undisturbed: "busy s \<Longrightarrow> step s s' \<Longrightarrow> \<not> own s s' \<Longrightarrow> rank s' \<le> rank s"
begin

lemma can_finish: "\<exists>s'. rtranclp own s s' \<and> \<not> busy s'"
proof (induction "rank s" arbitrary: s rule: less_induct)
  case less
  show ?case
  proof (cases "busy s")
    case True
    then obtain s1 where s1: "own s s1" "rank s1 < rank s" using enabled lowers by blast
    then obtain s2 where "rtranclp own s1 s2" "\<not> busy s2" using less by blast
    then show ?thesis using s1(1) by (meson converse_rtranclp_into_rtranclp)
  qed blast
qed

lemma bounded: "counted step own busy n s s' \<Longrightarrow> n + rank s' \<le> rank s"
proof (induction rule: counted.induct)
  case (mine n s s' s'')
  then show ?case using lowers [OF mine(2,3)] by simp
next
  case (other n s s' s'')
  then show ?case using undisturbed [OF other(2,3,4)] by simp
qed simp

end

end
