(* ===== verification/Heartbeat.thy ===== *)
theory Heartbeat
  imports JetMsg Transition
begin

text \<open>
  \<open>natsmsg/keepinprogress.go\<close>: the heartbeat that extends a delivery while a long handler runs. The
  ticker's goroutine is a loop over the ticks it takes before \<open>stop\<close>, each with the answer of the
  \<open>InProgress\<close> call it makes; what the loop does is the trace of those calls. The
  second half is the goroutine and the callers of \<open>stop\<close> as an interleaving transition system, of which
  \<open>tick_loop\<close> is the abstraction.
\<close>

definition keepInProgressMaxTicks :: nat where
  "keepInProgressMaxTicks = 15"

definition isPermanentInProgressErr :: "goerr option \<Rightarrow> bool" where
  "isPermanentInProgressErr err \<longleftrightarrow>
     opt_is err JsErrMsgAlreadyAckd \<or> opt_is err JsErrMsgNoReply \<or>
     opt_is err NatsErrMsgAlreadyAckd \<or> opt_is err NatsErrMsgNoReply"

interpretation permanent_tick: error_class isPermanentInProgressErr
  by unfold_locales (simp_all add: isPermanentInProgressErr_def)

fun tick_loop :: "nat \<Rightarrow> goerr option list \<Rightarrow> msg_call list" where
  "tick_loop ticks [] = []"
| "tick_loop ticks (err # errs) =
     (if keepInProgressMaxTicks < ticks + 1 then []
      else CallInProgress #
        (if err \<noteq> None \<and> isPermanentInProgressErr err then [] else tick_loop (ticks + 1) errs))"

definition heartbeat_interval :: "duration \<Rightarrow> duration" where
  "heartbeat_interval ackWait = quot ackWait 3"

definition KeepInProgress :: "duration \<Rightarrow> goerr option list \<Rightarrow> msg_call list" where
  "KeepInProgress ackWait answers =
     (if heartbeat_interval ackWait \<le> 0 then [] else tick_loop 0 answers)"

text \<open>The ticks up to and including the first permanent failure.\<close>

definition useful_ticks :: "goerr option list \<Rightarrow> nat" where
  "useful_ticks answers =
     (let transient = takeWhile (\<lambda>e. \<not> isPermanentInProgressErr e) answers
      in if length transient = length answers then length answers else length transient + 1)"

lemma useful_ticks_Cons:
  "useful_ticks (e # es) = (if isPermanentInProgressErr e then 1 else 1 + useful_ticks es)"
  by (auto simp: useful_ticks_def Let_def)

lemma tick_loop_calls:
  "tick_loop n answers = replicate (min (keepInProgressMaxTicks - n) (useful_ticks answers)) CallInProgress"
proof (induction n answers rule: tick_loop.induct)
  case (1 n)
  then show ?case by (simp add: useful_ticks_def)
next
  case (2 n e es)
  show ?case
  proof (cases "keepInProgressMaxTicks < n + 1")
    case False
    then have "keepInProgressMaxTicks - n = Suc (keepInProgressMaxTicks - (n + 1))" by simp
    then show ?thesis
      using 2 False permanent_tick.not_nil
      by (cases "isPermanentInProgressErr e") (auto simp: useful_ticks_Cons)
  qed simp
qed

text \<open>
  The heartbeat is bounded and stubborn. It only ever extends the delivery, once per tick, up to
  and including the first tick that fails for good and past every transient failure, and never more
  than fifteen times, so a wedged handler is extended by at most five ack waits; with no positive
  interval it does nothing.
\<close>

theorem heartbeat_bounded:
  "KeepInProgress ackWait answers =
     replicate (if heartbeat_interval ackWait \<le> 0 then 0 else min 15 (useful_ticks answers)) CallInProgress \<and>
   int (length (KeepInProgress ackWait answers)) * heartbeat_interval ackWait \<le> 5 * max 0 ackWait"
proof -
  have calls: "KeepInProgress ackWait answers =
     replicate (if heartbeat_interval ackWait \<le> 0 then 0 else min 15 (useful_ticks answers)) CallInProgress"
    by (simp add: KeepInProgress_def tick_loop_calls keepInProgressMaxTicks_def)
  moreover have "int (length (KeepInProgress ackWait answers)) * heartbeat_interval ackWait \<le> 5 * max 0 ackWait"
  proof (cases "heartbeat_interval ackWait \<le> 0")
    case True
    then show ?thesis by (simp add: KeepInProgress_def)
  next
    case False
    then have pos: "0 < ackWait"
      by (auto simp: heartbeat_interval_def quot_def sgn_if split: if_splits)
    then have i: "heartbeat_interval ackWait = ackWait div 3"
      by (simp add: heartbeat_interval_def quot_nonneg)
    have "int (min 15 (useful_ticks answers)) * (ackWait div 3) \<le> 15 * (ackWait div 3)"
      using False i by (intro mult_right_mono) auto
    also have "\<dots> \<le> 5 * ackWait" using pos by presburger
    finally show ?thesis using calls False pos i by simp
  qed
  ultimately show ?thesis by blast
qed

section \<open>The goroutine and its stop\<close>

text \<open>
  Where the goroutine is: in its \<open>select\<close>, in a call of \<open>InProgress\<close>, or returned with \<open>finished\<close>
  closed. \<open>hbDone\<close> is the closed \<open>done\<close> channel, \<open>hbStopping\<close> the calls of \<open>stop\<close> that wait for
  \<open>finished\<close> and \<open>hbStopped\<close> those that have returned. \<open>hbAnswers\<close> is what the calls have answered.
\<close>

datatype ticker_phase = Selecting | Extending | Exited

record heartbeat =
  hbTicks :: nat
  hbPhase :: ticker_phase
  hbDone :: bool
  hbCalls :: nat
  hbAnswers :: "goerr option list"
  hbStopping :: nat
  hbStopped :: nat

definition fresh_heartbeat :: "heartbeat \<Rightarrow> bool" where
  "fresh_heartbeat h \<longleftrightarrow> h = \<lparr>hbTicks = 0, hbPhase = Selecting, hbDone = False, hbCalls = 0,
     hbAnswers = [], hbStopping = 0, hbStopped = 0\<rparr>"

definition on_tick :: "heartbeat \<Rightarrow> heartbeat" where
  "on_tick h =
     (let ticks = hbTicks h + 1
      in if keepInProgressMaxTicks < ticks then h\<lparr>hbTicks := ticks, hbPhase := Exited\<rparr>
         else h\<lparr>hbTicks := ticks, hbCalls := hbCalls h + 1, hbPhase := Extending\<rparr>)"

definition on_answer :: "goerr option \<Rightarrow> heartbeat \<Rightarrow> heartbeat" where
  "on_answer err h =
     h\<lparr>hbAnswers := hbAnswers h @ [err],
       hbPhase := (if err \<noteq> None \<and> isPermanentInProgressErr err then Exited else Selecting)\<rparr>"

inductive ticker_step :: "heartbeat \<Rightarrow> heartbeat \<Rightarrow> bool" where
  sees_done: "hbPhase h = Selecting \<Longrightarrow> hbDone h \<Longrightarrow> ticker_step h (h\<lparr>hbPhase := Exited\<rparr>)"
| ticks: "hbPhase h = Selecting \<Longrightarrow> ticker_step h (on_tick h)"
| answered: "hbPhase h = Extending \<Longrightarrow> ticker_step h (on_answer err h)"

inductive heartbeat_step :: "heartbeat \<Rightarrow> heartbeat \<Rightarrow> bool" where
  ticker: "ticker_step h h' \<Longrightarrow> heartbeat_step h h'"
| stop_begins: "heartbeat_step h (h\<lparr>hbDone := True, hbStopping := hbStopping h + 1\<rparr>)"
| stop_returns: "0 < hbStopping h \<Longrightarrow> hbPhase h = Exited \<Longrightarrow>
     heartbeat_step h (h\<lparr>hbStopping := hbStopping h - 1, hbStopped := hbStopped h + 1\<rparr>)"

inductive_cases ticker_stepE: "ticker_step h h'"

inductive_cases heartbeat_stepE: "heartbeat_step h h'"

lemmas ticker_defs = on_tick_def on_answer_def Let_def

section \<open>The invariant\<close>

fun transient :: "goerr option list \<Rightarrow> bool" where
  "transient [] = True"
| "transient (e # es) = (\<not> isPermanentInProgressErr e \<and> transient es)"

lemma transient_snoc [simp]: "transient (es @ [e]) = (transient es \<and> \<not> isPermanentInProgressErr e)"
  by (induction es) auto

lemma useful_ticks_Nil [simp]: "useful_ticks [] = 0"
  by (simp add: useful_ticks_def)

lemma useful_ticks_transient: "transient es \<Longrightarrow> useful_ticks (es @ rest) = length es + useful_ticks rest"
  by (induction es) (simp_all add: useful_ticks_Cons)

lemma tick_loop_length: "length (tick_loop 0 es) = min keepInProgressMaxTicks (useful_ticks es)"
  by (simp add: tick_loop_calls)

definition heartbeat_inv :: "heartbeat \<Rightarrow> bool" where
  "heartbeat_inv h \<longleftrightarrow>
     hbCalls h \<le> keepInProgressMaxTicks \<and>
     (hbPhase h \<noteq> Exited \<longrightarrow> hbTicks h = hbCalls h \<and> transient (hbAnswers h)) \<and>
     hbCalls h = length (hbAnswers h) + (if hbPhase h = Extending then 1 else 0) \<and>
     length (hbAnswers h) = length (tick_loop 0 (hbAnswers h)) \<and>
     (0 < hbStopped h \<longrightarrow> hbPhase h = Exited) \<and>
     (0 < hbStopping h + hbStopped h \<longrightarrow> hbDone h)"

lemma answered_inv:
  assumes "heartbeat_inv h" "hbPhase h = Extending"
  shows "heartbeat_inv (on_answer err h)"
proof -
  have t: "transient (hbAnswers h)" "hbCalls h = length (hbAnswers h) + 1" "hbCalls h \<le> keepInProgressMaxTicks"
    "hbTicks h = hbCalls h" "hbStopped h = 0" "0 < hbStopping h \<Longrightarrow> hbDone h"
    using assms by (auto simp: heartbeat_inv_def)
  then have "length (tick_loop 0 (hbAnswers h @ [err])) = length (hbAnswers h) + 1"
    by (simp add: tick_loop_length useful_ticks_transient useful_ticks_Cons)
  then show ?thesis using t permanent_tick.not_nil
    by (cases err) (auto simp: heartbeat_inv_def on_answer_def)
qed

lemma ticker_inv: "heartbeat_inv h \<Longrightarrow> ticker_step h h' \<Longrightarrow> heartbeat_inv h'"
  by (erule ticker_stepE; (simp only: answered_inv)?)
    (auto simp: heartbeat_inv_def on_tick_def Let_def)

lemma heartbeat_inv_step: "heartbeat_inv h \<Longrightarrow> heartbeat_step h h' \<Longrightarrow> heartbeat_inv h'"
  by (erule heartbeat_stepE; (simp only: ticker_inv)?) (auto simp: heartbeat_inv_def)

interpretation heartbeat_safe: inductive_invariant fresh_heartbeat heartbeat_step heartbeat_inv
  by unfold_locales (simp add: fresh_heartbeat_def heartbeat_inv_def, rule heartbeat_inv_step)

interpretation heartbeat_over: inductive_invariant
  "\<lambda>h. hbPhase h = Exited \<and> hbCalls h = n" heartbeat_step "\<lambda>h. hbPhase h = Exited \<and> hbCalls h = n" for n
  by unfold_locales (auto elim!: heartbeat_stepE ticker_stepE)

section \<open>Stopping ends\<close>

text \<open>The steps the goroutine still has to take.\<close>

definition ticks_left :: "heartbeat \<Rightarrow> nat" where
  "ticks_left h = (case hbPhase h of
      Selecting \<Rightarrow> 2 * (keepInProgressMaxTicks - hbTicks h) + 1
    | Extending \<Rightarrow> 2 * (keepInProgressMaxTicks - hbTicks h) + 2
    | Exited \<Rightarrow> 0)"

interpretation ticker_progress: ranked_progress heartbeat_step ticker_step "\<lambda>h. hbPhase h \<noteq> Exited" ticks_left
proof unfold_locales
  show "\<exists>h'. ticker_step h h'" if "hbPhase h \<noteq> Exited" for h
    using that by (cases "hbPhase h") (auto intro: ticker_step.intros)
  show "ticks_left h' < ticks_left h" if "hbPhase h \<noteq> Exited" "ticker_step h h'" for h h'
    using that(2) by cases (auto simp: ticks_left_def ticker_defs)
  show "ticks_left h' \<le> ticks_left h" if "hbPhase h \<noteq> Exited" "heartbeat_step h h'" "\<not> ticker_step h h'" for h h'
    using that(2,3) by cases (auto simp: ticks_left_def split: ticker_phase.split)
qed

text \<open>
  C15. No heartbeat outlives its stop. However the ticker, the broker's answers and any number of callers
  of \<open>stop\<close> interleave: at most fifteen extensions are ever made; once some call of \<open>stop\<close> has returned
  none is in flight and none is ever made again, so no extension races the disposition that follows; the
  extensions that were answered are exactly those of \<open>tick_loop\<close> on the answers; and the goroutine
  itself can always run to its end, after which every waiting \<open>stop\<close> can return.
\<close>

theorem no_tick_after_stop:
  assumes "reachable fresh_heartbeat heartbeat_step h"
  shows "hbCalls h \<le> 15 \<and>
     (0 < hbStopped h \<and> rtranclp heartbeat_step h h' \<longrightarrow> hbPhase h' = Exited \<and> hbCalls h' = hbCalls h) \<and>
     tick_loop 0 (hbAnswers h) = replicate (length (hbAnswers h)) CallInProgress \<and>
     (\<exists>h''. rtranclp ticker_step h h'' \<and> hbPhase h'' = Exited)"
proof -
  have inv: "heartbeat_inv h" by (rule heartbeat_safe.always [OF assms])
  have "length (tick_loop 0 (hbAnswers h)) = length (hbAnswers h)" using inv by (simp add: heartbeat_inv_def)
  then have "tick_loop 0 (hbAnswers h) = replicate (length (hbAnswers h)) CallInProgress"
    by (metis tick_loop_calls length_replicate)
  then show ?thesis
    using inv heartbeat_over.along [of h h' "hbCalls h"] ticker_progress.can_finish [of h]
    by (auto simp: heartbeat_inv_def keepInProgressMaxTicks_def)
qed

text \<open>A run for evaluation: one extension, answered, then a stop.\<close>

definition demo_heartbeat :: heartbeat where
  "demo_heartbeat = \<lparr>hbTicks = 1, hbPhase = Exited, hbDone = True, hbCalls = 1,
     hbAnswers = [None], hbStopping = 0, hbStopped = 1\<rparr>"

lemma demo_heartbeat_reachable: "reachable fresh_heartbeat heartbeat_step demo_heartbeat"
proof -
  define h where "h = \<lparr>hbTicks = 0, hbPhase = Selecting, hbDone = False, hbCalls = 0,
     hbAnswers = [], hbStopping = 0, hbStopped = 0\<rparr>"
  let ?a = "on_answer None (on_tick h)"
  let ?b = "?a\<lparr>hbDone := True, hbStopping := hbStopping ?a + 1\<rparr>"
  let ?c = "?b\<lparr>hbPhase := Exited\<rparr>"
  have "reachable fresh_heartbeat heartbeat_step h"
    by (rule reachable.start) (simp add: fresh_heartbeat_def h_def)
  then have "reachable fresh_heartbeat heartbeat_step (on_tick h)"
    by (rule reachable.after) (rule heartbeat_step.ticker, rule ticker_step.ticks, simp add: h_def)
  then have "reachable fresh_heartbeat heartbeat_step ?a"
    by (rule reachable.after) (rule heartbeat_step.ticker, rule ticker_step.answered,
        simp add: h_def on_tick_def keepInProgressMaxTicks_def)
  then have "reachable fresh_heartbeat heartbeat_step ?b"
    by (rule reachable.after) (rule heartbeat_step.stop_begins)
  then have "reachable fresh_heartbeat heartbeat_step ?c"
    by (rule reachable.after) (rule heartbeat_step.ticker, rule ticker_step.sees_done, simp_all add: on_answer_def)
  then have "reachable fresh_heartbeat heartbeat_step
      (?c\<lparr>hbStopping := hbStopping ?c - 1, hbStopped := hbStopped ?c + 1\<rparr>)"
    by (rule reachable.after) (rule heartbeat_step.stop_returns, simp_all)
  then show ?thesis by (simp add: demo_heartbeat_def h_def ticker_defs keepInProgressMaxTicks_def)
qed

theorem no_tick_after_stop_witness:
  "\<exists>h''. rtranclp ticker_step demo_heartbeat h'' \<and> hbPhase h'' = Exited \<and> hbCalls demo_heartbeat \<le> 15"
  using no_tick_after_stop [OF demo_heartbeat_reachable, of demo_heartbeat] by blast

end
