(* ===== verification/RunnerLife.thy ===== *)
theory RunnerLife
  imports GoPrelude Transition
begin

text \<open>
  \<open>Runner\<close> of \<open>jsconsumer/jsconsumer.go\<close> as an interleaving transition system: the consume loop that
  dispatches deliveries, the handler, the context watcher and the ack-floor poll \<open>Start\<close> arms, and any
  number of callers of \<open>Stop\<close>, of which \<open>sync.Once\<close> lets one run the body. \<open>Consumer.Runner_Stop\<close> is the
  same operation as one caller's trace; theory \<open>Consumer\<close> relates the two.

  Of the consume loop the code relies on what nats.go documents: after \<open>cc.Stop()\<close> nothing is dispatched,
  and \<open>Closed()\<close> closes only when the loop has wound down with no handler running, which happens after
  \<open>cc.Stop()\<close> or when the subscription is lost.
\<close>

section \<open>State and steps\<close>

datatype stop_event =
    StopPulling
  | WarnWindowElapsed
  | CancelHandlers
  | AwaitClosed
  | AwaitPoll

text \<open>How far the body of the \<open>Once\<close> has come: not entered; in \<open>windowElapsed\<close>; the window won; waiting
  for the loop; done. A caller waits in \<open>stop.Do\<close>, then for \<open>closed\<close>, then for \<open>pollDone\<close>.\<close>

datatype once_phase = NotStopped | InWindow | Expired | AwaitingClose | StopDone

datatype caller = InOnce | BeforeClosed | BeforePoll | StopReturned

record runner_life =
  rlPulling :: bool
  rlInFlight :: bool
  rlLost :: bool
  rlClosed :: bool
  rlCtxDone :: bool
  rlCancelled :: bool
  rlWatching :: bool
  rlPollDone :: "bool option"
  rlWindowOver :: bool
  rlOnce :: once_phase
  rlCallers :: "caller list"
  rlEvents :: "stop_event list"

text \<open>A runner as \<open>Start\<close> returns it; \<open>rlPollDone\<close> is \<open>None\<close> without a monitor.\<close>

definition started_runner :: "bool \<Rightarrow> runner_life" where
  "started_runner polls =
     \<lparr>rlPulling = True, rlInFlight = False, rlLost = False, rlClosed = False, rlCtxDone = False,
      rlCancelled = False, rlWatching = True, rlPollDone = (if polls then Some False else None),
      rlWindowOver = False, rlOnce = NotStopped, rlCallers = [], rlEvents = []\<rparr>"

definition fresh_runner :: "runner_life \<Rightarrow> bool" where
  "fresh_runner s \<longleftrightarrow> (\<exists>polls. s = started_runner polls)"

definition once_does :: "stop_event list \<Rightarrow> once_phase \<Rightarrow> runner_life \<Rightarrow> runner_life" where
  "once_does evs p s = s\<lparr>rlOnce := p, rlEvents := rlEvents s @ evs\<rparr>"

text \<open>The body of the \<open>Once\<close>. The in-flight flag is read when the window has won.\<close>

inductive once_step :: "runner_life \<Rightarrow> runner_life \<Rightarrow> bool" where
  in_time: "rlOnce s = InWindow \<Longrightarrow> rlClosed s \<Longrightarrow> once_step s (once_does [] AwaitingClose s)"
| elapsed: "rlOnce s = InWindow \<Longrightarrow> rlWindowOver s \<Longrightarrow> \<not> rlClosed s \<Longrightarrow> once_step s (once_does [] Expired s)"
| cancels: "rlOnce s = Expired \<Longrightarrow>
     once_step s ((once_does ((if rlInFlight s then [WarnWindowElapsed] else []) @ [CancelHandlers]) AwaitingClose s)
       \<lparr>rlCancelled := True\<rparr>)"
| joins: "rlOnce s = AwaitingClose \<Longrightarrow> rlClosed s \<Longrightarrow>
     once_step s ((once_does [AwaitClosed, CancelHandlers] StopDone s)\<lparr>rlCancelled := True\<rparr>)"

definition set_caller :: "nat \<Rightarrow> caller \<Rightarrow> runner_life \<Rightarrow> runner_life" where
  "set_caller k c s = s\<lparr>rlCallers := (rlCallers s)[k := c]\<rparr>"

text \<open>One caller of \<open>Stop\<close>, after the \<open>Once\<close>.\<close>

inductive caller_step :: "nat \<Rightarrow> runner_life \<Rightarrow> runner_life \<Rightarrow> bool" for k where
  freed: "k < length (rlCallers s) \<Longrightarrow> rlCallers s ! k = InOnce \<Longrightarrow> rlOnce s = StopDone \<Longrightarrow>
     caller_step k s (set_caller k BeforeClosed s)"
| closed: "k < length (rlCallers s) \<Longrightarrow> rlCallers s ! k = BeforeClosed \<Longrightarrow> rlClosed s \<Longrightarrow>
     caller_step k s (set_caller k BeforePoll s)"
| polled: "k < length (rlCallers s) \<Longrightarrow> rlCallers s ! k = BeforePoll \<Longrightarrow> rlPollDone s \<noteq> Some False \<Longrightarrow>
     caller_step k s (set_caller k StopReturned s)"

text \<open>What the body waits for: the handler, the timer, the loop and the poll.\<close>

inductive loop_step :: "runner_life \<Rightarrow> runner_life \<Rightarrow> bool" where
  handler_returns: "rlInFlight s \<Longrightarrow> loop_step s (s\<lparr>rlInFlight := False\<rparr>)"
| window_over: "rlOnce s = InWindow \<Longrightarrow> \<not> rlWindowOver s \<Longrightarrow> loop_step s (s\<lparr>rlWindowOver := True\<rparr>)"
| winds_down: "\<not> rlPulling s \<or> rlLost s \<Longrightarrow> \<not> rlInFlight s \<Longrightarrow> \<not> rlClosed s \<Longrightarrow> loop_step s (s\<lparr>rlClosed := True\<rparr>)"
| poll_ends: "rlPollDone s = Some False \<Longrightarrow> rlCancelled s \<or> rlClosed s \<Longrightarrow> loop_step s (s\<lparr>rlPollDone := Some True\<rparr>)"

inductive runner_step :: "runner_life \<Rightarrow> runner_life \<Rightarrow> bool" where
  once: "once_step s s' \<Longrightarrow> runner_step s s'"
| caller: "caller_step k s s' \<Longrightarrow> runner_step s s'"
| loop: "loop_step s s' \<Longrightarrow> runner_step s s'"
| dispatches: "rlPulling s \<Longrightarrow> \<not> rlInFlight s \<Longrightarrow> \<not> rlClosed s \<Longrightarrow> runner_step s (s\<lparr>rlInFlight := True\<rparr>)"
| loses: "runner_step s (s\<lparr>rlLost := True\<rparr>)"
| context_ends: "runner_step s (s\<lparr>rlCtxDone := True\<rparr>)"
| watcher_stops: "rlWatching s \<Longrightarrow> rlCtxDone s \<or> rlClosed s \<Longrightarrow>
     runner_step s (s\<lparr>rlWatching := False, rlCallers := rlCallers s @ [InOnce]\<rparr>)"
| stop_called: "runner_step s (s\<lparr>rlCallers := rlCallers s @ [InOnce]\<rparr>)"
| once_begins: "rlOnce s = NotStopped \<Longrightarrow> InOnce \<in> set (rlCallers s) \<Longrightarrow>
     runner_step s ((once_does [StopPulling] InWindow s)\<lparr>rlPulling := False\<rparr>)"

inductive_cases once_stepE: "once_step s s'"

inductive_cases caller_stepE: "caller_step k s s'"

inductive_cases loop_stepE: "loop_step s s'"

inductive_cases runner_stepE: "runner_step s s'"

section \<open>The invariant\<close>

text \<open>The events of the body at each phase.\<close>

definition before_close :: "stop_event list list" where
  "before_close = [[StopPulling], [StopPulling, CancelHandlers], [StopPulling, WarnWindowElapsed, CancelHandlers]]"

fun trace_ok :: "once_phase \<Rightarrow> stop_event list \<Rightarrow> bool" where
  "trace_ok NotStopped evs = (evs = [])"
| "trace_ok InWindow evs = (evs = [StopPulling])"
| "trace_ok Expired evs = (evs = [StopPulling])"
| "trace_ok AwaitingClose evs = (evs \<in> set before_close)"
| "trace_ok StopDone evs =
     (\<exists>before \<in> set before_close. evs = before @ [AwaitClosed, CancelHandlers])"

definition traced :: "runner_life \<Rightarrow> bool" where
  "traced s \<longleftrightarrow> trace_ok (rlOnce s) (rlEvents s)"

definition caller_ok :: "once_phase \<Rightarrow> bool option \<Rightarrow> caller \<Rightarrow> bool" where
  "caller_ok p poll c \<longleftrightarrow> (c \<noteq> InOnce \<longrightarrow> p = StopDone) \<and> (c = StopReturned \<longrightarrow> poll \<noteq> Some False)"

definition callers_ok :: "runner_life \<Rightarrow> bool" where
  "callers_ok s \<longleftrightarrow> list_all (caller_ok (rlOnce s) (rlPollDone s)) (rlCallers s)"

definition phases_ok :: "runner_life \<Rightarrow> bool" where
  "phases_ok s \<longleftrightarrow>
     rlPulling s = (rlOnce s = NotStopped) \<and>
     (rlClosed s \<longrightarrow> \<not> rlInFlight s) \<and>
     (rlCancelled s \<longrightarrow> rlWindowOver s \<or> rlClosed s) \<and>
     (rlOnce s = Expired \<longrightarrow> rlWindowOver s) \<and>
     (rlOnce s = StopDone \<longrightarrow> rlClosed s \<and> rlCancelled s)"

lemma callers_kept:
  "list_all (caller_ok p poll) cs \<Longrightarrow> (p = StopDone \<longrightarrow> p' = StopDone) \<Longrightarrow>
     (poll \<noteq> Some False \<longrightarrow> poll' \<noteq> Some False) \<Longrightarrow> list_all (caller_ok p' poll') cs"
  by (auto simp: list_all_iff caller_ok_def)

lemma traced_step: "traced s \<Longrightarrow> runner_step s s' \<Longrightarrow> traced s'"
  by (erule runner_stepE; (erule once_stepE caller_stepE loop_stepE)?)
    (simp_all add: traced_def once_does_def set_caller_def before_close_def)

lemma phases_step: "phases_ok s \<Longrightarrow> runner_step s s' \<Longrightarrow> phases_ok s'"
  by (erule runner_stepE; (erule once_stepE caller_stepE loop_stepE)?)
    (auto simp: phases_ok_def once_does_def set_caller_def)

lemma moved_caller:
  assumes "caller_step k s s'" "callers_ok s"
  shows "callers_ok s'"
proof -
  have old: "caller_ok (rlOnce s) (rlPollDone s) (rlCallers s ! k)"
    using assms by (auto simp: callers_ok_def list_all_length elim: caller_stepE)
  have upd: "list_all P cs \<Longrightarrow> P c \<Longrightarrow> list_all P (cs[k := c])" for P c and cs :: "caller list"
    using set_update_subset_insert [of cs k c] by (auto simp: list_all_iff)
  from assms(1) show ?thesis
    using old assms(2) by cases (auto simp: callers_ok_def set_caller_def caller_ok_def intro!: upd)
qed

lemma callers_step: "callers_ok s \<Longrightarrow> runner_step s s' \<Longrightarrow> callers_ok s'"
proof (erule runner_stepE)
  fix k assume "callers_ok s" "caller_step k s s'"
  then show ?thesis using moved_caller by blast
next
  assume "callers_ok s" "once_step s s'"
  then show ?thesis
    by (auto simp: callers_ok_def once_does_def elim!: once_stepE elim: callers_kept)
next
  assume "callers_ok s" "loop_step s s'"
  then show ?thesis
    by (auto simp: callers_ok_def elim!: loop_stepE elim: callers_kept)
qed (auto simp: callers_ok_def once_does_def caller_ok_def elim: callers_kept)

interpretation runner_safe: inductive_invariant fresh_runner runner_step "\<lambda>s. phases_ok s \<and> callers_ok s \<and> traced s"
proof unfold_locales
  show "phases_ok s \<and> callers_ok s \<and> traced s" if "fresh_runner s" for s
    using that by (auto simp: fresh_runner_def started_runner_def phases_ok_def callers_ok_def traced_def)
qed (blast intro: phases_step callers_step traced_step)

lemma reachable_along: "reachable init step s \<Longrightarrow> rtranclp step s s' \<Longrightarrow> reachable init step s'"
  by (rotate_tac, induction rule: rtranclp_induct) (auto intro: reachable.after)

interpretation stays_closed: inductive_invariant "\<lambda>s. rlClosed s" runner_step "\<lambda>s. rlClosed s"
  by unfold_locales (auto simp: once_does_def set_caller_def
      elim!: runner_stepE once_stepE caller_stepE loop_stepE)

section \<open>A run for evaluation\<close>

text \<open>One handler runs past the window while one caller stops.\<close>

definition demo_overrun :: runner_life where
  "demo_overrun =
     \<lparr>rlPulling = False, rlInFlight = True, rlLost = False, rlClosed = False, rlCtxDone = False,
      rlCancelled = True, rlWatching = True, rlPollDone = None, rlWindowOver = True, rlOnce = AwaitingClose,
      rlCallers = [InOnce], rlEvents = [StopPulling, WarnWindowElapsed, CancelHandlers]\<rparr>"

lemma demo_reachable: "reachable fresh_runner runner_step demo_overrun"
proof -
  let ?a = "started_runner False"
  let ?b = "?a\<lparr>rlInFlight := True\<rparr>"
  let ?c = "?b\<lparr>rlCallers := rlCallers ?b @ [InOnce]\<rparr>"
  let ?d = "(once_does [StopPulling] InWindow ?c)\<lparr>rlPulling := False\<rparr>"
  let ?e = "?d\<lparr>rlWindowOver := True\<rparr>"
  let ?f = "once_does [] Expired ?e"
  let ?g = "(once_does ((if rlInFlight ?f then [WarnWindowElapsed] else []) @ [CancelHandlers]) AwaitingClose ?f)
       \<lparr>rlCancelled := True\<rparr>"
  have "reachable fresh_runner runner_step ?a" by (rule reachable.start) (auto simp: fresh_runner_def)
  then have "reachable fresh_runner runner_step ?b"
    by (rule reachable.after) (rule runner_step.dispatches, simp_all add: started_runner_def)
  then have "reachable fresh_runner runner_step ?c" by (rule reachable.after) (rule runner_step.stop_called)
  then have "reachable fresh_runner runner_step ?d"
    by (rule reachable.after) (rule runner_step.once_begins, simp_all add: started_runner_def)
  then have "reachable fresh_runner runner_step ?e"
    by (rule reachable.after) (rule runner_step.loop, rule loop_step.window_over, simp_all add: started_runner_def once_does_def)
  then have "reachable fresh_runner runner_step ?f"
    by (rule reachable.after) (rule runner_step.once, rule once_step.elapsed, simp_all add: started_runner_def once_does_def)
  then have "reachable fresh_runner runner_step ?g"
    by (rule reachable.after) (rule runner_step.once, rule once_step.cancels, simp add: once_does_def)
  then show ?thesis by (simp add: demo_overrun_def started_runner_def once_does_def)
qed

definition demo_wound_down :: runner_life where
  "demo_wound_down = (once_does [AwaitClosed, CancelHandlers] StopDone
     (demo_overrun\<lparr>rlInFlight := False\<rparr>\<lparr>rlClosed := True\<rparr>))\<lparr>rlCancelled := True\<rparr>"

lemma demo_wound_down_reachable: "reachable fresh_runner runner_step demo_wound_down"
proof -
  let ?a = "demo_overrun\<lparr>rlInFlight := False\<rparr>"
  let ?b = "?a\<lparr>rlClosed := True\<rparr>"
  have "reachable fresh_runner runner_step ?a"
    by (rule reachable.after [OF demo_reachable]) (rule runner_step.loop, rule loop_step.handler_returns, simp add: demo_overrun_def)
  then have "reachable fresh_runner runner_step ?b"
    by (rule reachable.after) (rule runner_step.loop, rule loop_step.winds_down, simp_all add: demo_overrun_def)
  then show ?thesis
    unfolding demo_wound_down_def
    by (rule reachable.after) (rule runner_step.once, rule once_step.joins, simp_all add: demo_overrun_def)
qed

section \<open>What a stop guarantees\<close>

lemma returned_means:
  assumes "reachable fresh_runner runner_step s" "StopReturned \<in> set (rlCallers s)"
  shows "rlClosed s" "\<not> rlInFlight s" "\<not> rlPulling s" "rlCancelled s" "rlPollDone s \<noteq> Some False"
proof -
  have inv: "phases_ok s" "callers_ok s" using runner_safe.always [OF assms(1)] by simp_all
  then have "caller_ok (rlOnce s) (rlPollDone s) StopReturned"
    using assms(2) by (simp add: callers_ok_def list_all_iff)
  then have "rlOnce s = StopDone" "rlPollDone s \<noteq> Some False" by (simp_all add: caller_ok_def)
  then show "rlClosed s" "\<not> rlInFlight s" "\<not> rlPulling s" "rlCancelled s" "rlPollDone s \<noteq> Some False"
    using inv(1) by (auto simp: phases_ok_def)
qed

text \<open>
  C8. What \<open>Stop\<close> guarantees under any interleaving of the loop, the handlers, the watcher, the poll and
  any number of callers. A running handler's context is cancelled only after the drain window is over;
  no delivery is dispatched once the body has begun; and when some caller has returned, the loop is
  closed, no handler runs and none ever will, the handlers' context is cancelled and the poll is over,
  so whatever handlers use may be torn down.
\<close>

theorem Stop_is_a_drain:
  assumes "reachable fresh_runner runner_step s"
  shows "(rlCancelled s \<and> rlInFlight s \<longrightarrow> rlWindowOver s) \<and>
     (rlOnce s \<noteq> NotStopped \<longrightarrow> \<not> rlPulling s) \<and>
     (StopReturned \<in> set (rlCallers s) \<longrightarrow> rlClosed s \<and> rlCancelled s \<and> rlPollDone s \<noteq> Some False \<and>
        (\<forall>s'. rtranclp runner_step s s' \<longrightarrow> rlClosed s' \<and> \<not> rlInFlight s'))"
proof -
  have inv: "phases_ok s'" if "rtranclp runner_step s s'" for s'
    using runner_safe.always [OF reachable_along [OF assms that]] by simp
  then have quiet: "rlClosed s' \<and> \<not> rlInFlight s'" if "rlClosed s" "rtranclp runner_step s s'" for s'
    using stays_closed.along [OF that(2,1)] that(2) by (auto simp: phases_ok_def)
  show ?thesis
    using inv [of s] returned_means [OF assms] quiet by (auto simp: phases_ok_def)
qed

theorem Stop_is_a_drain_witness:
  "rlWindowOver demo_overrun \<and> \<not> rlPulling demo_overrun"
  using Stop_is_a_drain [OF demo_reachable] by (simp add: demo_overrun_def)

section \<open>Every stop returns\<close>

definition once_left :: "once_phase \<Rightarrow> nat" where
  "once_left p = (case p of NotStopped \<Rightarrow> 4 | InWindow \<Rightarrow> 3 | Expired \<Rightarrow> 2 | AwaitingClose \<Rightarrow> 1 | StopDone \<Rightarrow> 0)"

definition caller_left :: "caller \<Rightarrow> nat" where
  "caller_left c = (case c of InOnce \<Rightarrow> 3 | BeforeClosed \<Rightarrow> 2 | BeforePoll \<Rightarrow> 1 | StopReturned \<Rightarrow> 0)"

text \<open>The steps left before caller \<open>k\<close> returns: those of the body, of what it waits for and its own.\<close>

definition stop_left :: "nat \<Rightarrow> runner_life \<Rightarrow> nat" where
  "stop_left k s = once_left (rlOnce s) + caller_left (rlCallers s ! k) +
     (if rlWindowOver s then 0 else 1) + (if rlInFlight s then 1 else 0) + (if rlClosed s then 0 else 1) +
     (if rlPollDone s = Some False then 1 else 0)"

definition stop_own :: "nat \<Rightarrow> runner_life \<Rightarrow> runner_life \<Rightarrow> bool" where
  "stop_own k s s' \<longleftrightarrow> once_step s s' \<or> caller_step k s s' \<or> loop_step s s'"

definition stopping :: "nat \<Rightarrow> runner_life \<Rightarrow> bool" where
  "stopping k s \<longleftrightarrow> rlOnce s \<noteq> NotStopped \<and> \<not> rlPulling s \<and> k < length (rlCallers s) \<and> rlCallers s ! k \<noteq> StopReturned"

lemma closing_enabled: "\<not> rlPulling s \<Longrightarrow> \<not> rlClosed s \<Longrightarrow> \<exists>s'. loop_step s s'"
  by (cases "rlInFlight s") (auto intro: loop_step.intros)

lemma stopping_enabled:
  assumes "stopping k s"
  shows "\<exists>s'. stop_own k s s'"
proof (cases "rlClosed s")
  case False
  then show ?thesis using closing_enabled assms by (auto simp: stopping_def stop_own_def)
next
  case True
  show ?thesis
  proof (cases "rlOnce s = StopDone \<or> rlCallers s ! k \<noteq> InOnce")
    case True
    then show ?thesis using assms \<open>rlClosed s\<close>
      by (cases "rlCallers s ! k"; cases "rlPollDone s = Some False")
        (auto simp: stopping_def stop_own_def intro: caller_step.intros loop_step.intros)
  next
    case False
    then show ?thesis using assms \<open>rlClosed s\<close>
      by (cases "rlOnce s") (auto simp: stopping_def stop_own_def intro: once_step.intros)
  qed
qed

lemmas left_defs = stop_left_def once_left_def caller_left_def once_does_def set_caller_def

lemma own_lowers: "stop_own k s s' \<Longrightarrow> stop_left k s' < stop_left k s"
  unfolding stop_own_def
  by (elim disjE; (erule once_stepE caller_stepE loop_stepE)) (auto simp: left_defs)

lemma others_disturb_not:
  assumes "stopping k s" "runner_step s s'" "\<not> stop_own k s s'"
  shows "stop_left k s' \<le> stop_left k s"
  using assms(2)
proof cases
  case (caller j)
  then have "j \<noteq> k" using assms(3) by (auto simp: stop_own_def)
  then show ?thesis using caller by (auto simp: stop_left_def set_caller_def elim!: caller_stepE)
qed (use assms(1,3) in \<open>auto simp: stop_left_def stop_own_def stopping_def nth_append\<close>)

interpretation stop_progress: ranked_progress runner_step "stop_own k" "stopping k" "stop_left k" for k
  by unfold_locales (blast intro: stopping_enabled, rule own_lowers, assumption, rule others_disturb_not)

lemma own_stays:
  "stop_own k s s' \<Longrightarrow> rlOnce s \<noteq> NotStopped \<and> \<not> rlPulling s \<and> k < length (rlCallers s) \<Longrightarrow>
     rlOnce s' \<noteq> NotStopped \<and> \<not> rlPulling s' \<and> k < length (rlCallers s')"
  unfolding stop_own_def
  by (elim disjE; (erule once_stepE caller_stepE loop_stepE)) (auto simp: once_does_def set_caller_def)

interpretation begun: inductive_invariant
  "\<lambda>s. rlOnce s \<noteq> NotStopped \<and> \<not> rlPulling s \<and> k < length (rlCallers s)" "stop_own k"
  "\<lambda>s. rlOnce s \<noteq> NotStopped \<and> \<not> rlPulling s \<and> k < length (rlCallers s)" for k
  by unfold_locales (assumption, rule own_stays)

text \<open>
  C14. Every \<open>Stop\<close> returns once its handler does. After the body has begun, each caller can reach its
  return by steps of the body, of itself, and of what they wait for (the handler returning, the window
  timer, the loop winding down, the poll ending); and whatever deliveries, cancellations, lost
  subscriptions and further callers come in between, at most ten such steps are taken before it has.
\<close>

theorem Stop_returns:
  assumes "reachable fresh_runner runner_step s" and "rlOnce s \<noteq> NotStopped" and "k < length (rlCallers s)"
  shows "(\<exists>s'. rtranclp (stop_own k) s s' \<and> rlCallers s' ! k = StopReturned) \<and>
     (\<forall>n s'. counted runner_step (stop_own k) (stopping k) n s s' \<longrightarrow> n \<le> 10)"
proof -
  have b: "rlOnce s \<noteq> NotStopped \<and> \<not> rlPulling s \<and> k < length (rlCallers s)"
    using assms runner_safe.always [OF assms(1)] by (auto simp: phases_ok_def)
  obtain s' where s': "rtranclp (stop_own k) s s'" "\<not> stopping k s'"
    using stop_progress.can_finish by blast
  have "rlCallers s' ! k = StopReturned"
    using begun.along [OF s'(1) b] s'(2) by (auto simp: stopping_def)
  moreover have "once_left (rlOnce s) \<le> 3" "caller_left (rlCallers s ! k) \<le> 3"
    using assms(2) by (auto simp: once_left_def caller_left_def split: once_phase.split caller.split)
  then have "stop_left k s \<le> 10" by (simp add: stop_left_def)
  then have "n \<le> 10" if "counted runner_step (stop_own k) (stopping k) n s s'" for n s'
    using stop_progress.bounded [OF that] by simp
  ultimately show ?thesis using s'(1) by blast
qed

theorem Stop_returns_witness:
  "\<exists>s'. rtranclp (stop_own 0) demo_overrun s' \<and> rlCallers s' ! 0 = StopReturned"
  using Stop_returns [OF demo_reachable, of 0] by (simp add: demo_overrun_def)

end
