(* ===== verification/Consumer.thy ===== *)
theory Consumer
  imports Settle TraceContext DrainConn Heartbeat RunnerLife
begin

text \<open>
  \<open>jsconsumer/jsconsumer.go\<close>, configuration and start: \<open>consumer_config\<close> is the struct \<open>Config\<close>, with
  its effective values, \<open>validate\<close>, the schedule it implies, \<open>checkAgainstStream\<close> and \<open>Start\<close>; the
  classifiers \<open>isShutdownConsumeErr\<close> and \<open>isRetryableStartError\<close>; the supervision loop of \<open>Run\<close>;
  \<open>Runner.Stop\<close> with \<open>windowElapsed\<close>; and the per-message prologue \<open>Process\<close>.

  A monitor is a pointer into the heap \<open>mons\<close>; the \<open>Retry\<close> of a config is its state. JetStream is the
  record \<open>js_world\<close> of what it answers.
\<close>

section \<open>Configuration\<close>

definition DefaultAckWait :: duration where
  "DefaultAckWait = 30 * second"

definition DefaultMaxDeliver :: int where
  "DefaultMaxDeliver = 8"

definition DefaultDrainWindow :: duration where
  "DefaultDrainWindow = 10 * second"

record consumer_config =
  cfStream :: string
  cfDurable :: string
  cfFilterSubject :: string
  cfFilterSubjects :: "string list"
  cfAckWait :: duration
  cfMaxDeliver :: int
  cfSpanName :: string
  cfName :: string
  cfInactiveThreshold :: duration
  cfMaxAckPending :: int
  cfBackOff :: "duration list"
  cfRetry :: "retry option"
  cfFloorMonitor :: "nat option"
  cfLogger :: "logger option"
  cfKeepInProgress :: bool
  cfMaxMessages :: int
  cfDrainWindow :: duration

definition EffectiveDrainWindow :: "consumer_config \<Rightarrow> duration" where
  "EffectiveDrainWindow c = (if cfDrainWindow c = 0 then DefaultDrainWindow else cfDrainWindow c)"

definition EffectiveAckWait :: "consumer_config \<Rightarrow> duration" where
  "EffectiveAckWait c = (if cfAckWait c = 0 then DefaultAckWait else cfAckWait c)"

definition EffectiveMaxDeliver :: "consumer_config \<Rightarrow> int" where
  "EffectiveMaxDeliver c = (if cfMaxDeliver c = 0 then DefaultMaxDeliver else cfMaxDeliver c)"

definition config_logger :: "consumer_config \<Rightarrow> logger" where
  "config_logger c = (case cfLogger c of None \<Rightarrow> DefaultLogger | Some l \<Rightarrow> l)"

definition retry_monitor_of :: "consumer_config \<Rightarrow> nat option" where
  "retry_monitor_of c = (case cfRetry c of None \<Rightarrow> None | Some r \<Rightarrow> Retry_Monitor r)"

definition floorMonitor :: "consumer_config \<Rightarrow> nat option" where
  "floorMonitor c = (if cfFloorMonitor c \<noteq> None then cfFloorMonitor c else retry_monitor_of c)"

definition config_schedule :: "(nat \<Rightarrow> floor_monitor) \<Rightarrow> consumer_config \<Rightarrow> schedule" where
  "config_schedule mons c =
     (let s = zero_schedule\<lparr>scServerBackOff := cfBackOff c, scMaxDeliver := max (EffectiveMaxDeliver c) 0,
                            scAckWait := EffectiveAckWait c\<rparr>
      in case cfRetry c of
           None \<Rightarrow> s
         | Some r \<Rightarrow>
             let e = expectations mons r
             in s\<lparr>scCaptureReserve := scCaptureReserve e, scMaxTimeToDeadLetter := scMaxTimeToDeadLetter e,
                  scRecoverBy := scRecoverBy e, scFloorAge := scFloorAge e\<rparr>)"

datatype config_error =
    KeepInProgressNeedsOne int
  | StreamRequired
  | DurableRequired
  | OnMsgRequired
  | BothFilters
  | EmptyFilter nat
  | AckWaitNegative
  | BadConsumerMaxDeliver
  | MaxMessagesNegative
  | BadMaxAckPending
  | InactiveThresholdNegative
  | DrainWindowNegative
  | MonitorConflict
  | RetryMaxDeliverMismatch int int
  | ScheduleIncoherent "violation list"
  | NilConn

text \<open>The index of the first empty filter subject.\<close>

fun empty_filter :: "nat \<Rightarrow> string list \<Rightarrow> nat option" where
  "empty_filter i [] = None"
| "empty_filter i (s # ss) = (if s = [] then Some i else empty_filter (i + 1) ss)"

definition validate_fields :: "bool \<Rightarrow> consumer_config \<Rightarrow> config_error option" where
  "validate_fields hasOnMsg c =
     (if cfKeepInProgress c \<and> 1 < cfMaxMessages c then Some (KeepInProgressNeedsOne (cfMaxMessages c))
      else if cfStream c = [] then Some StreamRequired
      else if cfDurable c = [] then Some DurableRequired
      else if \<not> hasOnMsg then Some OnMsgRequired
      else if cfFilterSubject c \<noteq> [] \<and> cfFilterSubjects c \<noteq> [] then Some BothFilters
      else case empty_filter 0 (cfFilterSubjects c) of Some i \<Rightarrow> Some (EmptyFilter i) | None \<Rightarrow>
      if cfAckWait c < 0 then Some AckWaitNegative
      else if cfMaxDeliver c < - 1 then Some BadConsumerMaxDeliver
      else if cfMaxMessages c < 0 then Some MaxMessagesNegative
      else if cfMaxAckPending c < - 1 then Some BadMaxAckPending
      else if cfInactiveThreshold c < 0 then Some InactiveThresholdNegative
      else if cfDrainWindow c < 0 then Some DrainWindowNegative
      else None)"

definition validate :: "(nat \<Rightarrow> floor_monitor) \<Rightarrow> bool \<Rightarrow> bool \<Rightarrow> consumer_config \<Rightarrow> config_error option" where
  "validate mons hasConn hasOnMsg c =
     (case validate_fields hasOnMsg c of Some e \<Rightarrow> Some e | None \<Rightarrow>
      if cfFloorMonitor c \<noteq> None \<and> cfRetry c \<noteq> None \<and> retry_monitor_of c \<noteq> None \<and>
         cfFloorMonitor c \<noteq> retry_monitor_of c then Some MonitorConflict
      else case (case cfRetry c of None \<Rightarrow> None | Some r \<Rightarrow>
                   if Retry_MaxDeliver r \<noteq> EffectiveMaxDeliver c
                   then Some (RetryMaxDeliverMismatch (Retry_MaxDeliver r) (EffectiveMaxDeliver c)) else None)
           of Some e \<Rightarrow> Some e | None \<Rightarrow>
      case (if cfRetry c \<noteq> None \<or> cfBackOff c \<noteq> [] then Schedule_Err (config_schedule mons c) else None)
        of Some vs \<Rightarrow> Some (ScheduleIncoherent vs) | None \<Rightarrow>
      if \<not> hasConn then Some NilConn else None)"

text \<open>The errors as Go values: only the monitor conflict wraps a sentinel.\<close>

definition config_goerr :: "string \<Rightarrow> config_error \<Rightarrow> goerr" where
  "config_goerr name e = (case e of
      MonitorConflict \<Rightarrow> Errorf (''jsconsumer('' @ name @ '')'') (Sentinel ErrMonitorConflict)
    | _ \<Rightarrow> NewErr (''jsconsumer('' @ name @ '')''))"

section \<open>Starting\<close>

record consumer_spec =
  spDurable :: string
  spAckWait :: duration
  spMaxDeliver :: int
  spFilterSubject :: string
  spFilterSubjects :: "string list"
  spInactiveThreshold :: duration
  spMaxAckPending :: int
  spBackOff :: "duration list"

text \<open>What JetStream answers: \<open>jetstream.New\<close>, the stream handle with its cached maximum age (no info at
  all is \<open>Inr None\<close>), \<open>CreateOrUpdateConsumer\<close> (the new consumer's identity) and \<open>Consume\<close>.\<close>

record js_world =
  jwNew :: "goerr option"
  jwStream :: "string \<Rightarrow> goerr + duration option"
  jwCreate :: "string \<Rightarrow> consumer_spec \<Rightarrow> goerr + nat"
  jwConsume :: "goerr option"

datatype js_call =
    CallStreamInfo string
  | CallCreate string consumer_spec
  | CallConsume "int option"

definition checkAgainstStream ::
  "(nat \<Rightarrow> floor_monitor) \<Rightarrow> js_world \<Rightarrow> consumer_config \<Rightarrow> goerr option \<times> js_call list" where
  "checkAgainstStream mons w c =
     (if cfRetry c = None \<and> cfBackOff c = [] then (None, [])
      else case jwStream w (cfStream c) of
        Inl e \<Rightarrow> (Some (Errorf (''jsconsumer('' @ cfName c @ ''): read stream'') e), [CallStreamInfo (cfStream c)])
      | Inr None \<Rightarrow> (Some (NewErr (''jsconsumer('' @ cfName c @ ''): stream returned no config'')), [CallStreamInfo (cfStream c)])
      | Inr (Some maxAge) \<Rightarrow>
          (case Schedule_Err ((config_schedule mons c)\<lparr>scStreamMaxAge := maxAge\<rparr>) of
             Some vs \<Rightarrow> (Some (config_goerr (cfName c) (ScheduleIncoherent vs)), [CallStreamInfo (cfStream c)])
           | None \<Rightarrow> (None, [CallStreamInfo (cfStream c)])))"

definition consumer_spec_of :: "consumer_config \<Rightarrow> consumer_spec" where
  "consumer_spec_of c = \<lparr>spDurable = cfDurable c, spAckWait = EffectiveAckWait c,
     spMaxDeliver = EffectiveMaxDeliver c, spFilterSubject = cfFilterSubject c,
     spFilterSubjects = cfFilterSubjects c, spInactiveThreshold = cfInactiveThreshold c,
     spMaxAckPending = cfMaxAckPending c, spBackOff = cfBackOff c\<rparr>"

definition pull_max :: "consumer_config \<Rightarrow> int option" where
  "pull_max c = (if cfKeepInProgress c then Some 1
     else if 0 < cfMaxMessages c then Some (cfMaxMessages c) else None)"

text \<open>A runner, with what \<open>Start\<close> attached: the retry's state, the heap, and the polled monitor.\<close>

record runner =
  rnDrainWindow :: duration
  rnHandlerCtx :: ctx
  rnLogger :: logger
  rnName :: string
  rnRetry :: "retry option"
  rnMons :: "nat \<Rightarrow> floor_monitor"
  rnPolls :: "nat option"

definition Start ::
  "(nat \<Rightarrow> floor_monitor) \<Rightarrow> js_world \<Rightarrow> ctx \<Rightarrow> bool \<Rightarrow> bool \<Rightarrow> consumer_config \<Rightarrow> (goerr + runner) \<times> js_call list" where
  "Start mons w c hasConn hasOnMsg cfg =
     (case validate mons hasConn hasOnMsg cfg of
        Some e \<Rightarrow> (Inl (config_goerr (cfName cfg) e), [])
      | None \<Rightarrow>
      case jwNew w of
        Some e \<Rightarrow> (Inl (Errorf (''jsconsumer('' @ cfName cfg @ ''): jetstream.New'') e), [])
      | None \<Rightarrow>
      case checkAgainstStream mons w cfg of
        (Some e, calls) \<Rightarrow> (Inl e, calls)
      | (None, calls) \<Rightarrow>
      case jwCreate w (cfStream cfg) (consumer_spec_of cfg) of
        Inl e \<Rightarrow> (Inl (Errorf (''jsconsumer('' @ cfName cfg @ ''): create consumer'') e),
                  calls @ [CallCreate (cfStream cfg) (consumer_spec_of cfg)])
      | Inr cons \<Rightarrow>
        let calls1 = calls @ [CallCreate (cfStream cfg) (consumer_spec_of cfg), CallConsume (pull_max cfg)]
        in case jwConsume w of
             Some e \<Rightarrow> (Inl (Errorf (''jsconsumer('' @ cfName cfg @ ''): consume'') e), calls1)
           | None \<Rightarrow>
               (Inr \<lparr>rnDrainWindow = EffectiveDrainWindow cfg, rnHandlerCtx = withoutCancel c,
                    rnLogger = config_logger cfg, rnName = cfName cfg,
                    rnRetry = map_option (retry_attach (cfName cfg) (Some (config_logger cfg))) (cfRetry cfg),
                    rnMons = (case floorMonitor cfg of None \<Rightarrow> mons
                      | Some p \<Rightarrow> mons(p := floor_attach cons (cfName cfg) (Some (config_logger cfg)) (mons p))),
                    rnPolls = floorMonitor cfg\<rparr>, calls1))"

section \<open>Error classes\<close>

definition isShutdownConsumeErr :: "ctx \<Rightarrow> goerr option \<Rightarrow> bool" where
  "isShutdownConsumeErr c err \<longleftrightarrow>
     IsShutdownFetchErr c err \<or> (ctxErr c \<noteq> None \<and> opt_is err JsErrConnectionClosed)"

definition permanent_codes :: "js_error_code list" where
  "permanent_codes = [JSErrCodeBadRequest, JSErrCodeConsumerCreate, JSErrCodeConsumerNameExists,
     JSErrCodeMaximumConsumersLimit, JSErrCodeJetStreamNotEnabledForAccount, JSErrCodeJetStreamNotEnabled,
     JSErrCodeConsumerAlreadyExists, JSErrCodeDuplicateFilterSubjects, JSErrCodeOverlappingFilterSubjects,
     JSErrCodeConsumerEmptyFilter, JSErrCodeConsumerExists]"

definition isRetryableStartError :: "goerr option \<Rightarrow> bool" where
  "isRetryableStartError err =
     (if opt_is err JsErrStreamNotFound \<or> opt_is err NatsErrNoResponders \<or>
         opt_is err NatsErrTimeout \<or> opt_is err NatsErrDisconnected then True
      else case (case err of None \<Rightarrow> None | Some e \<Rightarrow> as_api_error e) of
             None \<Rightarrow> False
           | Some api \<Rightarrow> if apiErrorCode api \<in> set permanent_codes then False else 500 \<le> apiCode api)"

interpretation shutdown_consume_err: error_class "isShutdownConsumeErr c" for c
  by unfold_locales (simp_all add: isShutdownConsumeErr_def shutdown_fetch_err.not_nil shutdown_fetch_err.wrapped)

interpretation retryable_start_err: error_class isRetryableStartError
  by unfold_locales (simp_all add: isRetryableStartError_def)

text \<open>The handler \<open>Start\<close> registers for errors of the consume loop.\<close>

definition on_consume_error :: "ctx \<Rightarrow> consumer_config \<Rightarrow> goerr option \<Rightarrow> log_entry list" where
  "on_consume_error c cfg cerr =
     (if isShutdownConsumeErr c cerr then [] else [LogEntry LevelWarn (cfName cfg) ''consume error''])"

section \<open>Stopping\<close>

definition windowElapsed :: "time option \<Rightarrow> duration \<Rightarrow> wait_sched \<Rightarrow> bool" where
  "windowElapsed done_at window w =
     (if signalled done_at (wsWoke w) \<and> (\<not> window \<le> wsWoke w \<or> wsPickDone w) then False
      else \<not> signalled done_at (wsRecheck w))"

interpretation drain_window: bounded_wait windowElapsed
  by unfold_locales (auto simp: sched_ok_def windowElapsed_def signalled_def split: option.splits if_splits)

text \<open>What a \<open>Stop\<close> meets, in time since it began: when the loop closes if its handler is left alone,
  whether a handler is in flight when the window is over, and the scheduler.\<close>

record stop_world =
  swClosesAt :: "time option"
  swInFlight :: bool
  swSched :: wait_sched

text \<open>One call's trace; \<open>first\<close> says whether it is the one \<open>sync.Once\<close> runs. Theory \<open>RunnerLife\<close> has the
  interleaving of all of them.\<close>

definition Runner_Stop :: "runner option \<Rightarrow> bool \<Rightarrow> stop_world \<Rightarrow> stop_event list" where
  "Runner_Stop rn first w =
     (case rn of
        None \<Rightarrow> []
      | Some r \<Rightarrow>
          (if first
           then [StopPulling] @
             (if windowElapsed (swClosesAt w) (rnDrainWindow r) (swSched w)
              then (if swInFlight w then [WarnWindowElapsed] else []) @ [CancelHandlers]
              else []) @
             [AwaitClosed, CancelHandlers]
           else []) @
          [AwaitClosed] @ (if rnPolls r \<noteq> None then [AwaitPoll] else []))"

section \<open>Supervision\<close>

definition runRetryInitial :: duration where
  "runRetryInitial = second"

definition runRetryMax :: duration where
  "runRetryMax = 30 * second"

text \<open>One attempt of the loop, as the world decides it: \<open>Start\<close> failed (and whether the context is done
  then), the context ended while the loop ran, or the loop closed by itself after a lifetime (and
  whether the context is done once it was joined).\<close>

datatype attempt =
    AttemptFailed goerr bool
  | AttemptCancelled
  | AttemptClosed duration bool

datatype run_event = RunStartFailed | RunStarted | RunStop | RunWait duration

datatype run_result = Returned "goerr option" | StillRunning

text \<open>The world is a list of attempts, each with whether the context ends during the wait after it; the
  list ends where the observation does.\<close>

fun run_loop :: "duration \<Rightarrow> (attempt \<times> bool) list \<Rightarrow> run_result \<times> run_event list" where
  "run_loop delay [] = (StillRunning, [])"
| "run_loop delay ((att, endsInWait) # rest) =
     (let wait = (\<lambda>d. if endsInWait then (Returned None, [RunWait d])
                      else let (res, evs) = run_loop (min (wrap64 (d * 2)) runRetryMax) rest
                           in (res, RunWait d # evs))
      in case att of
           AttemptFailed err ctxDone \<Rightarrow>
             if ctxDone then (Returned None, [RunStartFailed])
             else if \<not> isRetryableStartError (Some err) then (Returned (Some err), [RunStartFailed])
             else (let (res, evs) = wait delay in (res, RunStartFailed # evs))
         | AttemptCancelled \<Rightarrow> (Returned None, [RunStarted, RunStop])
         | AttemptClosed lived ctxDone \<Rightarrow>
             if ctxDone then (Returned None, [RunStarted, RunStop])
             else (let (res, evs) = wait (if runRetryMax \<le> lived then runRetryInitial else delay)
                   in (res, RunStarted # RunStop # evs)))"

definition Run ::
  "(nat \<Rightarrow> floor_monitor) \<Rightarrow> bool \<Rightarrow> bool \<Rightarrow> consumer_config \<Rightarrow> (attempt \<times> bool) list \<Rightarrow> run_result \<times> run_event list" where
  "Run mons hasConn hasOnMsg cfg world =
     (case validate mons hasConn hasOnMsg cfg of
        Some e \<Rightarrow> (Returned (Some (config_goerr (cfName cfg) e)), [])
      | None \<Rightarrow> run_loop runRetryInitial world)"

section \<open>Processing a message\<close>

datatype 'e process_event =
    PLog log_entry
  | PSpanError string
  | POnUndecodable
  | PRetry event
  | PCall msg_call
  | PHeartbeatStart duration
  | PHandle ctx 'e
  | PHandled
  | PHeartbeatStop


section \<open>No unchecked consumer\<close>

text \<open>A config opted into the schedule checks when it has a retry mechanism or a ladder.\<close>

definition opted_in :: "consumer_config \<Rightarrow> bool" where
  "opted_in cfg \<longleftrightarrow> cfRetry cfg \<noteq> None \<or> cfBackOff cfg \<noteq> []"

lemma validate_None:
  assumes "validate mons hasConn hasOnMsg cfg = None"
  shows "validate_fields hasOnMsg cfg = None" "hasConn"
    "opted_in cfg \<Longrightarrow> Validate (config_schedule mons cfg) = []"
    "cfRetry cfg = Some r \<Longrightarrow> rcMaxDeliver (rtCfg r) = EffectiveMaxDeliver cfg"
    "cfFloorMonitor cfg = None \<or> retry_monitor_of cfg = None \<or> cfFloorMonitor cfg = retry_monitor_of cfg"
  using assms
  by (auto simp: validate_def opted_in_def Retry_MaxDeliver_def retry_monitor_of_def
      split: option.splits if_splits)

lemma check_calls: "CallCreate st sp \<notin> set (snd (checkAgainstStream mons w cfg))"
  by (auto simp: checkAgainstStream_def split: option.splits sum.splits)

lemma Start_creates:
  assumes "Start mons w c hasConn hasOnMsg cfg = (res, calls)" "CallCreate st sp \<in> set calls"
  shows "validate mons hasConn hasOnMsg cfg = None" "st = cfStream cfg" "sp = consumer_spec_of cfg"
    "fst (checkAgainstStream mons w cfg) = None"
  using assms check_calls [of st sp mons w cfg]
  by (cases "checkAgainstStream mons w cfg";
      auto simp: Start_def Let_def split: option.splits sum.splits if_splits)+

lemma Start_Inr:
  assumes "Start mons w c hasConn hasOnMsg cfg = (Inr rn, calls)"
  shows "CallCreate (cfStream cfg) (consumer_spec_of cfg) \<in> set calls"
    "rnRetry rn = map_option (retry_attach (cfName cfg) (Some (config_logger cfg))) (cfRetry cfg)"
    "rnDrainWindow rn = EffectiveDrainWindow cfg"
  using assms
  by (cases "checkAgainstStream mons w cfg";
      auto simp: Start_def Let_def split: option.splits sum.splits)+

lemma check_passed:
  assumes "fst (checkAgainstStream mons w cfg) = None" "opted_in cfg"
  shows "\<exists>maxAge. jwStream w (cfStream cfg) = Inr (Some maxAge) \<and>
     Validate ((config_schedule mons cfg)\<lparr>scStreamMaxAge := maxAge\<rparr>) = []"
  using assms by (auto simp: checkAgainstStream_def opted_in_def split: option.splits sum.splits if_splits)

text \<open>
  C9. No unchecked consumer. \<open>Start\<close> asks the server to create or update the consumer only with the
  validated configuration at its effective values; and, when the consumer has a retry mechanism or a
  ladder, only after the stream's retention was actually read and the whole schedule, with that
  retention, found coherent in exact arithmetic, so its ladder reaches the dead-letter delivery within
  the stated bound and before the stream would discard the message; and the retry mechanism's delivery
  cap is the one the server is given. An unreadable stream is never a pass.
\<close>

theorem no_unchecked_consumer:
  assumes "Start mons w c hasConn hasOnMsg cfg = (res, calls)" and "CallCreate st sp \<in> set calls"
  shows "st = cfStream cfg \<and> sp = consumer_spec_of cfg \<and> validate mons hasConn hasOnMsg cfg = None \<and>
     (opted_in cfg \<longrightarrow> (\<exists>maxAge. jwStream w (cfStream cfg) = Inr (Some maxAge) \<and>
        (let s = (config_schedule mons cfg)\<lparr>scStreamMaxAge := maxAge\<rparr>
         in representable s \<longrightarrow> coherent s))) \<and>
     (\<forall>r. cfRetry cfg = Some r \<longrightarrow> rcMaxDeliver (rtCfg r) = spMaxDeliver sp)"
proof -
  note start = Start_creates [OF assms]
  have "\<exists>maxAge. jwStream w (cfStream cfg) = Inr (Some maxAge) \<and>
        (let s = (config_schedule mons cfg)\<lparr>scStreamMaxAge := maxAge\<rparr> in representable s \<longrightarrow> coherent s)"
    if opted: "opted_in cfg"
  proof -
    obtain maxAge where m: "jwStream w (cfStream cfg) = Inr (Some maxAge)"
      "Validate ((config_schedule mons cfg)\<lparr>scStreamMaxAge := maxAge\<rparr>) = []"
      using check_passed [OF start(4) opted] by blast
    then show ?thesis using Validate_coherent by (auto simp: Let_def)
  qed
  moreover have "rcMaxDeliver (rtCfg r) = spMaxDeliver sp" if "cfRetry cfg = Some r" for r
    using validate_None(4) [OF start(1) that] start(3) by (simp add: consumer_spec_of_def)
  ultimately show ?thesis using start by blast
qed

definition demo_consumer :: consumer_config where
  "demo_consumer = \<lparr>cfStream = ''repo_refs_v1'', cfDurable = ''indexer'', cfFilterSubject = [],
     cfFilterSubjects = [], cfAckWait = 5 * minute, cfMaxDeliver = 6, cfSpanName = ''refs.consume'',
     cfName = ''indexer'', cfInactiveThreshold = 0, cfMaxAckPending = 0,
     cfBackOff = replicate 5 (5 * minute), cfRetry = Some demo_retry, cfFloorMonitor = None,
     cfLogger = None, cfKeepInProgress = True, cfMaxMessages = 0, cfDrainWindow = 0\<rparr>"

definition demo_js :: js_world where
  "demo_js = \<lparr>jwNew = None, jwStream = (\<lambda>_. Inr (Some (24 * hour))), jwCreate = (\<lambda>_ _. Inr 7), jwConsume = None\<rparr>"

lemma demo_schedule: "config_schedule (\<lambda>_. adopter_monitor) demo_consumer = adopter_schedule"
  by (simp add: config_schedule_def demo_consumer_def adopter_schedule_def expectations_def demo_retry_def
      fresh_retry_def with_defaults_def demo_config_def zero_schedule_def EffectiveMaxDeliver_def
      EffectiveAckWait_def effective_reserve_def DefaultCaptureReserve_def adopter_monitor_def FloorAge_def Let_def duration_units)

lemma demo_validate: "validate (\<lambda>_. adopter_monitor) True True demo_consumer = None"
proof -
  have "Validate adopter_schedule = []" by code_simp
  then have "Schedule_Err (config_schedule (\<lambda>_. adopter_monitor) demo_consumer) = None"
    by (simp add: demo_schedule)
  moreover have "validate_fields True demo_consumer = None" by code_simp
  moreover have "Retry_MaxDeliver demo_retry = EffectiveMaxDeliver demo_consumer" by code_simp
  moreover have "cfRetry demo_consumer = Some demo_retry" "cfFloorMonitor demo_consumer = None"
    by (simp_all add: demo_consumer_def)
  ultimately show ?thesis by (simp add: validate_def Schedule_Err_None [THEN iffD2])
qed

theorem no_unchecked_consumer_witness:
  "CallCreate ''repo_refs_v1'' (consumer_spec_of demo_consumer)
     \<in> set (snd (Start (\<lambda>_. adopter_monitor) demo_js background True True demo_consumer)) \<and>
   coherent (adopter_schedule\<lparr>scStreamMaxAge := 24 * hour\<rparr>)"
proof -
  obtain res calls where s: "Start (\<lambda>_. adopter_monitor) demo_js background True True demo_consumer = (res, calls)"
    by (metis prod.exhaust)
  have ok: "Validate (adopter_schedule\<lparr>scStreamMaxAge := 24 * hour\<rparr>) = []" by code_simp
  have r: "representable (adopter_schedule\<lparr>scStreamMaxAge := 24 * hour\<rparr>)" by code_simp
  have stream: "jwStream demo_js (cfStream demo_consumer) = Inr (Some (24 * hour))" by (simp add: demo_js_def)
  have "cfBackOff demo_consumer \<noteq> []" by (simp add: demo_consumer_def)
  then have opt: "opted_in demo_consumer" by (simp add: opted_in_def)
  have "fst (checkAgainstStream (\<lambda>_. adopter_monitor) demo_js demo_consumer) = None"
    using stream ok by (simp add: checkAgainstStream_def demo_schedule Schedule_Err_None [THEN iffD2])
  then have call: "CallCreate ''repo_refs_v1'' (consumer_spec_of demo_consumer) \<in> set calls"
    using s demo_validate
    by (auto simp: Start_def demo_js_def Let_def split: prod.splits option.splits) (simp_all add: demo_consumer_def)
  have "\<exists>maxAge. jwStream demo_js (cfStream demo_consumer) = Inr (Some maxAge) \<and>
        (let s = adopter_schedule\<lparr>scStreamMaxAge := maxAge\<rparr> in representable s \<longrightarrow> coherent s)"
    using no_unchecked_consumer [OF s call] opt demo_schedule by simp
  then have "coherent (adopter_schedule\<lparr>scStreamMaxAge := 24 * hour\<rparr>)"
    using stream r by (simp add: Let_def)
  then show ?thesis using s call by simp
qed

section \<open>The supervision loop\<close>

text \<open>The wait after \<open>k\<close> unhealthy attempts in a row.\<close>

definition escalation :: "nat \<Rightarrow> duration" where
  "escalation k = min (2 ^ k * second) (30 * second)"

lemma escalation_bounds: "second \<le> escalation k" "escalation k \<le> 30 * second"
  by (simp_all add: escalation_def second_def)

lemma escalation_0: "escalation 0 = runRetryInitial"
  by (simp add: escalation_def runRetryInitial_def second_def)

lemma escalation_Suc: "min (wrap64 (escalation k * 2)) runRetryMax = escalation (Suc k)"
proof -
  have "in_i64 (escalation k * 2)"
    using escalation_bounds [of k] by (simp add: in_i64_def second_def)
  then show ?thesis by (auto simp: wrap64_id escalation_def runRetryMax_def second_def min_def)
qed

text \<open>The environment keeps the loop going: no context end, and only retryable start errors.\<close>

fun keeps_going :: "attempt \<times> bool \<Rightarrow> bool" where
  "keeps_going (AttemptFailed e ctxDone, ends) = (\<not> ctxDone \<and> isRetryableStartError (Some e) \<and> \<not> ends)"
| "keeps_going (AttemptCancelled, ends) = False"
| "keeps_going (AttemptClosed lived ctxDone, ends) = (\<not> ctxDone \<and> \<not> ends)"

text \<open>How many unhealthy attempts precede each wait since a loop last lived to be called healthy.\<close>

fun streaks :: "nat \<Rightarrow> (attempt \<times> bool) list \<Rightarrow> nat list" where
  "streaks k [] = []"
| "streaks k ((AttemptClosed lived d, w) # rest) =
     (if runRetryMax \<le> lived then 0 # streaks 1 rest else k # streaks (Suc k) rest)"
| "streaks k (a # rest) = k # streaks (Suc k) rest"

fun waits_of :: "run_event list \<Rightarrow> duration list" where
  "waits_of [] = []"
| "waits_of (RunWait d # evs) = d # waits_of evs"
| "waits_of (e # evs) = waits_of evs"

text \<open>Every successful start is stopped, and so joined, before anything else happens.\<close>

fun joined_before_next :: "run_event list \<Rightarrow> bool" where
  "joined_before_next [] = True"
| "joined_before_next (RunStarted # evs) =
     (case evs of RunStop # rest \<Rightarrow> joined_before_next rest | _ \<Rightarrow> False)"
| "joined_before_next (RunStop # evs) = False"
| "joined_before_next (e # evs) = joined_before_next evs"

lemma run_loop_waits:
  "list_all keeps_going world \<Longrightarrow>
     fst (run_loop (escalation k) world) = StillRunning \<and>
     waits_of (snd (run_loop (escalation k) world)) = map escalation (streaks k world)"
proof (induction k world rule: streaks.induct)
  case (2 k lived d w rest)
  have one: "min (wrap64 (runRetryInitial * 2)) runRetryMax = escalation 1"
    using escalation_Suc [of 0] by (simp add: escalation_0)
  show ?case
  proof (cases "runRetryMax \<le> lived")
    case True
    with 2 one show ?thesis by (simp add: case_prod_unfold Let_def escalation_0)
  next
    case False
    with 2 show ?thesis by (simp add: case_prod_unfold Let_def escalation_Suc)
  qed
qed (simp_all add: case_prod_unfold Let_def escalation_Suc)

lemma run_loop_joins: "joined_before_next (snd (run_loop delay world))"
  by (induction delay world rule: run_loop.induct)
    (auto simp: case_prod_unfold Let_def split: attempt.split)

lemma run_loop_result:
  "fst (run_loop delay world) = Returned (Some e) \<Longrightarrow>
     \<exists>w. (AttemptFailed e False, w) \<in> set world \<and> \<not> isRetryableStartError (Some e)"
  by (induction delay world rule: run_loop.induct)
    (auto simp: case_prod_unfold Let_def split: attempt.splits if_splits)

text \<open>
  C17. The supervision envelope. As long as the context lives and the failures are retryable, \<open>Run\<close>
  never gives up, and the wait after each attempt is one second doubled for every unhealthy attempt
  since a loop last lived thirty seconds, capped at thirty seconds; whatever happens, every loop that
  started is stopped and joined before the next attempt; and \<open>Run\<close> returns an error only for a
  rejected configuration or a start failure that is not retryable.
\<close>

theorem Run_supervises:
  assumes "validate mons hasConn hasOnMsg cfg = None"
  shows "(list_all keeps_going world \<longrightarrow>
       fst (Run mons hasConn hasOnMsg cfg world) = StillRunning \<and>
       waits_of (snd (Run mons hasConn hasOnMsg cfg world)) = map escalation (streaks 0 world)) \<and>
     joined_before_next (snd (Run mons hasConn hasOnMsg cfg world)) \<and>
     (\<forall>e. fst (Run mons hasConn hasOnMsg cfg world) = Returned (Some e) \<longrightarrow>
        (\<exists>w. (AttemptFailed e False, w) \<in> set world \<and> \<not> isRetryableStartError (Some e)))"
  using run_loop_waits [of world 0] run_loop_joins run_loop_result
  by (simp add: Run_def assms escalation_0)

theorem Run_supervises_witness:
  "waits_of (snd (Run (\<lambda>_. adopter_monitor) True True demo_consumer
      [(AttemptFailed (Sentinel JsErrStreamNotFound) False, False),
       (AttemptFailed (Sentinel NatsErrTimeout) False, False),
       (AttemptClosed (40 * second) False, False),
       (AttemptClosed second False, False)])) = [second, 2 * second, second, 2 * second]"
  using Run_supervises [OF demo_validate, of "[(AttemptFailed (Sentinel JsErrStreamNotFound) False, False),
       (AttemptFailed (Sentinel NatsErrTimeout) False, False), (AttemptClosed (40 * second) False, False),
       (AttemptClosed second False, False)]"]
  by (simp add: isRetryableStartError_def escalation_def runRetryMax_def second_def)

text \<open>
  What \<open>Run\<close> retries. A missing stream, no responders, a timeout and a disconnect are always
  retryable; a server response is otherwise retried exactly when its status is 5xx and its code is none
  of the permanent configuration and account errors; every other error, among them every rejection of
  the configuration itself, goes back to the owner; and wrapping changes none of this.
\<close>

theorem retryable_start_errors:
  "(\<forall>s \<in> {JsErrStreamNotFound, NatsErrNoResponders, NatsErrTimeout, NatsErrDisconnected}.
      isRetryableStartError (Some (fold Errorf ms (LibErr (s # ss) api txt)))) \<and>
   isRetryableStartError (Some (fold Errorf ms (LibErr [] (Some a) txt))) =
     (500 \<le> apiCode a \<and> apiErrorCode a \<notin> set permanent_codes) \<and>
   \<not> isRetryableStartError (Some (fold Errorf ms (NewErr txt))) \<and>
   \<not> isRetryableStartError (Some (config_goerr name ce)) \<and>
   \<not> isRetryableStartError None"
proof -
  have "\<not> isRetryableStartError (Some (config_goerr name ce))"
    by (cases ce) (simp_all add: config_goerr_def isRetryableStartError_def)
  then show ?thesis
    unfolding retryable_start_err.wrapped_many
    by (auto simp: isRetryableStartError_def)
qed

theorem retryable_start_errors_witness:
  "isRetryableStartError (Some (fold Errorf [''a''] (LibErr [NatsErrTimeout] None [])))"
  using retryable_start_errors [of "[''a'']" "[]" None "[]"] by auto

section \<open>Stopping in order\<close>

text \<open>
  C20. The order of a stop. Every caller returns only after the loop has closed and, with a monitor, after
  its poll has ended. The first caller stops pulling first, and before it waits like the others it has
  seen the loop closed and released the handlers' context, in that order. In between it cancels that
  context early only when the drain window really was over and the loop had not closed by then, which it
  reports exactly when a handler was in flight; a loop that closes within the window is never cancelled,
  whichever way the scheduler resolves a tie.
\<close>

theorem stop_order:
  assumes "sched_ok (swClosesAt w) (rnDrainWindow r) (swSched w)"
  shows "Runner_Stop (Some r) False w = [AwaitClosed] @ (if rnPolls r \<noteq> None then [AwaitPoll] else []) \<and>
     (\<exists>early. Runner_Stop (Some r) True w =
          [StopPulling] @ early @ [AwaitClosed, CancelHandlers] @ Runner_Stop (Some r) False w \<and>
        (if early = [] then signalled (swClosesAt w) (wsRecheck (swSched w))
         else early = (if swInFlight w then [WarnWindowElapsed] else []) @ [CancelHandlers] \<and>
              rnDrainWindow r \<le> wsWoke (swSched w) \<and> \<not> signalled (swClosesAt w) (wsRecheck (swSched w))) \<and>
        (signalled (swClosesAt w) (rnDrainWindow r) \<longrightarrow> early = []))"
proof (cases "windowElapsed (swClosesAt w) (rnDrainWindow r) (swSched w)")
  case True
  with drain_window.in_time [OF assms] drain_window.reported [OF assms] show ?thesis
    by (intro conjI exI [of _ "(if swInFlight w then [WarnWindowElapsed] else []) @ [CancelHandlers]"])
      (auto simp: Runner_Stop_def)
next
  case False
  then have "signalled (swClosesAt w) (wsRecheck (swSched w))"
    using assms by (auto simp: windowElapsed_def sched_ok_def signalled_def split: option.splits if_splits)
  with False show ?thesis
    by (intro conjI exI [of _ "[]"]) (auto simp: Runner_Stop_def)
qed

theorem stop_order_witness:
  "\<exists>early. Runner_Stop (Some \<lparr>rnDrainWindow = 10, rnHandlerCtx = background, rnLogger = DefaultLogger, rnName = [],
       rnRetry = None, rnMons = (\<lambda>_. adopter_monitor), rnPolls = None\<rparr>) True
     \<lparr>swClosesAt = Some 4, swInFlight = False, swSched = \<lparr>wsWoke = 4, wsPickDone = True, wsRecheck = 4\<rparr>\<rparr>
   = [StopPulling] @ early @ [AwaitClosed, CancelHandlers, AwaitClosed] \<and> early = []"
proof -
  let ?r = "\<lparr>rnDrainWindow = 10, rnHandlerCtx = background, rnLogger = DefaultLogger, rnName = [],
       rnRetry = None, rnMons = (\<lambda>_. adopter_monitor), rnPolls = None\<rparr>"
  let ?w = "\<lparr>swClosesAt = Some 4, swInFlight = False, swSched = \<lparr>wsWoke = 4, wsPickDone = True, wsRecheck = 4\<rparr>\<rparr>"
  have "sched_ok (swClosesAt ?w) (rnDrainWindow ?r) (swSched ?w)" by (simp add: sched_ok_def signalled_def)
  from stop_order [OF this] show ?thesis by (auto simp: signalled_def)
qed

text \<open>
  The interleaving model and the trace agree. What the body of the \<open>Once\<close> has done when it is over,
  in any reachable state of the interleaving model, is what \<open>Runner_Stop\<close> does before its own waits for
  some scheduling of the window.
\<close>

theorem Runner_Stop_refined:
  assumes "reachable fresh_runner runner_step s" and "rlOnce s = StopDone"
  shows "\<exists>w. sched_ok (swClosesAt w) (rnDrainWindow r) (swSched w) \<and>
     Runner_Stop (Some r) True w = rlEvents s @ Runner_Stop (Some r) False w"
proof -
  let ?late = "\<lambda>busy. \<lparr>swClosesAt = None, swInFlight = busy,
     swSched = \<lparr>wsWoke = rnDrainWindow r, wsPickDone = False, wsRecheck = rnDrainWindow r\<rparr>\<rparr>"
  let ?early = "\<lparr>swClosesAt = Some 0, swInFlight = False, swSched = \<lparr>wsWoke = 0, wsPickDone = True, wsRecheck = 0\<rparr>\<rparr>"
  have "traced s" using runner_safe.always [OF assms(1)] by simp
  then obtain before where b: "before \<in> set before_close" "rlEvents s = before @ [AwaitClosed, CancelHandlers]"
    using assms(2) by (auto simp: traced_def)
  have "\<exists>w \<in> {?early, ?late False, ?late True}.
      before @ [AwaitClosed, CancelHandlers] @ Runner_Stop (Some r) False w = Runner_Stop (Some r) True w"
    using b(1) by (auto simp: before_close_def Runner_Stop_def windowElapsed_def signalled_def)
  moreover have "sched_ok (swClosesAt w) (rnDrainWindow r) (swSched w)" if "w \<in> {?early, ?late False, ?late True}" for w
    using that by (auto simp: sched_ok_def signalled_def)
  ultimately show ?thesis using b(2) by (metis append.assoc)
qed

theorem Runner_Stop_refined_witness:
  "\<exists>w. Runner_Stop (Some \<lparr>rnDrainWindow = 10, rnHandlerCtx = background, rnLogger = DefaultLogger, rnName = [],
       rnRetry = None, rnMons = (\<lambda>_. adopter_monitor), rnPolls = None\<rparr>) True w =
     [StopPulling, WarnWindowElapsed, CancelHandlers, AwaitClosed, CancelHandlers, AwaitClosed]"
proof -
  have "rlOnce demo_wound_down = StopDone" by (simp add: demo_wound_down_def once_does_def)
  then obtain w where w: "Runner_Stop (Some \<lparr>rnDrainWindow = 10, rnHandlerCtx = background, rnLogger = DefaultLogger,
       rnName = [], rnRetry = None, rnMons = (\<lambda>_. adopter_monitor), rnPolls = None\<rparr>) True w =
      rlEvents demo_wound_down @ Runner_Stop (Some \<lparr>rnDrainWindow = 10, rnHandlerCtx = background,
       rnLogger = DefaultLogger, rnName = [], rnRetry = None, rnMons = (\<lambda>_. adopter_monitor), rnPolls = None\<rparr>) False w"
    using Runner_Stop_refined [OF demo_wound_down_reachable] by blast
  show ?thesis
    by (rule exI [of _ w], subst w) (simp add: Runner_Stop_def demo_wound_down_def demo_overrun_def once_does_def)
qed

section \<open>Processing\<close>

fun process_calls :: "'e process_event list \<Rightarrow> msg_call list" where
  "process_calls [] = []"
| "process_calls (PCall c # evs) = c # process_calls evs"
| "process_calls (PRetry e # evs) = calls_of [e] @ process_calls evs"
| "process_calls (e # evs) = process_calls evs"

fun handled :: "'e process_event list \<Rightarrow> (ctx \<times> 'e) list" where
  "handled [] = []"
| "handled (PHandle c ev # evs) = (c, ev) # handled evs"
| "handled (e # evs) = handled evs"

lemma process_calls_append [simp]: "process_calls (xs @ ys) = process_calls xs @ process_calls ys"
  by (induction xs rule: process_calls.induct) auto

lemma handled_append [simp]: "handled (xs @ ys) = handled xs @ handled ys"
  by (induction xs rule: handled.induct) auto

lemma process_calls_retry [simp]: "process_calls (map PRetry evs) = calls_of evs"
  by (induction evs rule: calls_of.induct) auto

lemma handled_retry [simp]: "handled (map PRetry evs) = []"
  by (induction evs) auto

lemma process_calls_own [simp]: "process_calls (map PCall calls) = calls"
  by (induction calls) auto

lemma handled_own [simp]: "handled (map PCall calls) = []"
  by (induction calls) auto


end
