(* ===== verification/Connect.thy ===== *)
theory Connect
  imports GoPrelude
begin

text \<open>
  \<open>connect.go\<close>: the options and defaults of a connection, the resolution of its TLS configuration,
  the dial, and the lifecycle handlers with their lame-duck flag. The environment, the file system,
  \<open>crypto/x509\<close> and the dial of nats.go are parameters: \<open>getenv\<close>, the record \<open>tls_world\<close> as it is at the
  moment of use, and \<open>dial\<close>. A caller's own TLS configuration and raw options are opaque numbers.
\<close>

section \<open>Tunables and options\<close>

definition DefaultDrainTimeout :: duration where
  "DefaultDrainTimeout = 5 * second"

definition DefaultReconnectWait :: duration where
  "DefaultReconnectWait = 2 * second"

definition natsPublishDrainTimeout :: duration where
  "natsPublishDrainTimeout = 5 * second"

definition envTLSCert :: string where
  "envTLSCert = ''ENTIRE_INTERNAL_TLS_CERT_FILE''"

definition envTLSKey :: string where
  "envTLSKey = ''ENTIRE_INTERNAL_TLS_KEY_FILE''"

definition envTLSCA :: string where
  "envTLSCA = ''ENTIRE_INTERNAL_TLS_CA_FILE''"

text \<open>\<open>RotatingTLS cert key ca minVersion skipVerify\<close> is a configuration as \<open>TLSConfigFromFiles\<close> builds it: its
  callbacks over three files (below), the minimum version, and \<open>InsecureSkipVerify\<close>, which leaves the
  verification of the server to the callback.\<close>

definition VersionTLS13 :: int where
  "VersionTLS13 = 0x0304"

datatype tls_config = CallerTLS nat | RotatingTLS string string string int bool

record conn_config =
  ccName :: string
  ccLogger :: "logger option"
  ccTLS :: "tls_config option"
  ccTLSFromEnv :: bool
  ccDrainTimeout :: duration
  ccReconnectWait :: duration
  ccMaxReconnects :: int
  ccRetryOnFailedConnect :: bool
  ccExtra :: "nat list"

datatype conn_option =
    WithName string
  | WithLogger "logger option"
  | WithTLSConfig "tls_config option"
  | WithoutTLS
  | WithDrainTimeout duration
  | WithReconnectWait duration
  | WithRetryOnFailedConnect
  | WithNATSOptions "nat list"

fun apply_option :: "conn_option \<Rightarrow> conn_config \<Rightarrow> conn_config" where
  "apply_option (WithName n) c = c\<lparr>ccName := n\<rparr>"
| "apply_option (WithLogger l) c = c\<lparr>ccLogger := l\<rparr>"
| "apply_option (WithTLSConfig t) c = c\<lparr>ccTLS := t, ccTLSFromEnv := False\<rparr>"
| "apply_option WithoutTLS c = c\<lparr>ccTLS := None, ccTLSFromEnv := False\<rparr>"
| "apply_option (WithDrainTimeout d) c = c\<lparr>ccDrainTimeout := d\<rparr>"
| "apply_option (WithReconnectWait d) c = c\<lparr>ccReconnectWait := d\<rparr>"
| "apply_option WithRetryOnFailedConnect c = c\<lparr>ccRetryOnFailedConnect := True\<rparr>"
| "apply_option (WithNATSOptions os) c = c\<lparr>ccExtra := ccExtra c @ os\<rparr>"

definition resolve_config :: "conn_option list \<Rightarrow> conn_config" where
  "resolve_config opts =
     (let c = fold apply_option opts
                \<lparr>ccName = [], ccLogger = Some DefaultLogger, ccTLS = None, ccTLSFromEnv = True,
                 ccDrainTimeout = DefaultDrainTimeout, ccReconnectWait = DefaultReconnectWait,
                 ccMaxReconnects = - 1, ccRetryOnFailedConnect = False, ccExtra = []\<rparr>
      in if ccLogger c = None then c\<lparr>ccLogger := Some DefaultLogger\<rparr> else c)"

section \<open>TLS from files\<close>

text \<open>Certificates are opaque. \<open>twVerify roots dns intermediates leaf\<close> is the leaf's \<open>Verify\<close>.\<close>

type_synonym cert = nat

record tls_world =
  twLoadKeyPair :: "string \<Rightarrow> string \<Rightarrow> goerr + cert"
  twReadFile :: "string \<Rightarrow> goerr + byte list"
  twParsePEM :: "byte list \<Rightarrow> cert list"
  twVerify :: "cert list \<Rightarrow> string \<Rightarrow> cert list \<Rightarrow> cert \<Rightarrow> goerr option"

record conn_state =
  csServerName :: string
  csPeerCertificates :: "cert list"

definition caPoolFromFile :: "tls_world \<Rightarrow> string \<Rightarrow> goerr + cert list" where
  "caPoolFromFile w ca =
     (case twReadFile w ca of
        Inl e \<Rightarrow> Inl (Errorf ''nuts: read ca'' e)
      | Inr bytes \<Rightarrow>
          let pool = twParsePEM w bytes
          in if pool = [] then Inl (NewErr ''nuts: ca PEM: no certs parsed'') else Inr pool)"

definition TLSConfigFromFiles :: "tls_world \<Rightarrow> string \<Rightarrow> string \<Rightarrow> string \<Rightarrow> goerr + tls_config" where
  "TLSConfigFromFiles w cert key ca =
     (case twLoadKeyPair w cert key of
        Inl e \<Rightarrow> Inl (Errorf ''nuts: load tls keypair'' e)
      | Inr kp \<Rightarrow>
          (case caPoolFromFile w ca of
             Inl e \<Rightarrow> Inl e
           | Inr pool \<Rightarrow> Inr (RotatingTLS cert key ca VersionTLS13 True)))"

text \<open>The two callbacks, in the world at the moment of the handshake.\<close>

definition get_client_certificate :: "tls_world \<Rightarrow> string \<Rightarrow> string \<Rightarrow> goerr + cert" where
  "get_client_certificate w cert key =
     (case twLoadKeyPair w cert key of
        Inl e \<Rightarrow> Inl (Errorf ''nuts: reload tls keypair'' e)
      | Inr kp \<Rightarrow> Inr kp)"

definition verify_connection :: "tls_world \<Rightarrow> string \<Rightarrow> conn_state \<Rightarrow> goerr option" where
  "verify_connection w ca cs =
     (case caPoolFromFile w ca of
        Inl e \<Rightarrow> Some e
      | Inr roots \<Rightarrow>
          (case csPeerCertificates cs of
             [] \<Rightarrow> Some (NewErr ''nuts: server presented no certificate'')
           | leaf # rest \<Rightarrow>
               map_option (Errorf ''nuts: verify server certificate'')
                 (twVerify w roots (csServerName cs) rest leaf)))"

definition tlsConfigFromEnv :: "(string \<Rightarrow> string) \<Rightarrow> tls_world \<Rightarrow> goerr + tls_config" where
  "tlsConfigFromEnv getenv w =
     (let cert = getenv envTLSCert; key = getenv envTLSKey; ca = getenv envTLSCA
      in if cert = [] \<or> key = [] \<or> ca = []
         then Inl (NewErr ''nuts: all required for NATS mTLS'')
         else TLSConfigFromFiles w cert key ca)"

section \<open>Lifecycle handlers\<close>

datatype lifecycle_event =
    Disconnected "goerr option"
  | Closed
  | Reconnected
  | ReconnectFailed goerr
  | AsyncError goerr
  | LameDuck

text \<open>Each handler on the flag \<open>lameDuckPending\<close>: the flag after it and the line it logs.\<close>

fun on_event :: "string \<Rightarrow> lifecycle_event \<Rightarrow> bool \<Rightarrow> bool \<times> log_entry" where
  "on_event nm (Disconnected err) pending =
     (case err of
        None \<Rightarrow> (False, LogEntry LevelInfo nm ''nuts: NATS disconnected'')
      | Some e \<Rightarrow> (False, LogEntry (if pending then LevelWarn else LevelError) nm ''nuts: NATS disconnected''))"
| "on_event nm Closed pending = (pending, LogEntry LevelInfo nm ''nuts: NATS connection closed'')"
| "on_event nm Reconnected pending = (pending, LogEntry LevelInfo nm ''nuts: NATS reconnected'')"
| "on_event nm (ReconnectFailed e) pending = (pending, LogEntry LevelError nm ''nuts: NATS reconnect failed'')"
| "on_event nm (AsyncError e) pending = (pending, LogEntry LevelError nm ''nuts: NATS async error'')"
| "on_event nm LameDuck pending = (True, LogEntry LevelWarn nm ''nuts: NATS server entering lame duck mode'')"

definition flag_after :: "string \<Rightarrow> lifecycle_event list \<Rightarrow> bool" where
  "flag_after nm evs = fold (\<lambda>ev pending. fst (on_event nm ev pending)) evs False"

section \<open>Connect\<close>

datatype nats_option =
    NatsDrainTimeout duration
  | NatsRetryOnFailedConnect bool
  | NatsMaxReconnects int
  | NatsReconnectWait duration
  | NatsLifecycleHandlers
  | NatsSecure tls_config
  | NatsName string
  | NatsExtra nat

datatype conn_status = StatusConnected | StatusOther nat

definition nats_options :: "conn_config \<Rightarrow> tls_config option \<Rightarrow> nats_option list" where
  "nats_options cfg tls =
     [NatsDrainTimeout (ccDrainTimeout cfg), NatsRetryOnFailedConnect (ccRetryOnFailedConnect cfg),
      NatsMaxReconnects (ccMaxReconnects cfg), NatsReconnectWait (ccReconnectWait cfg),
      NatsLifecycleHandlers] @
     (case tls of None \<Rightarrow> [] | Some t \<Rightarrow> [NatsSecure t]) @
     (if ccName cfg \<noteq> [] then [NatsName (ccName cfg)] else []) @
     map NatsExtra (ccExtra cfg)"

definition resolve_tls :: "(string \<Rightarrow> string) \<Rightarrow> tls_world \<Rightarrow> conn_config \<Rightarrow> goerr + tls_config option" where
  "resolve_tls getenv w cfg =
     (if ccTLS cfg \<noteq> None then Inr (ccTLS cfg)
      else if ccTLSFromEnv cfg
        then (case tlsConfigFromEnv getenv w of Inl e \<Rightarrow> Inl e | Inr t \<Rightarrow> Inr (Some t))
      else Inr None)"

text \<open>The result, whether and with which options the server was dialled, and the lines logged.\<close>

definition Connect ::
  "(string \<Rightarrow> string) \<Rightarrow> tls_world \<Rightarrow> (string \<Rightarrow> nats_option list \<Rightarrow> goerr + conn_status) \<Rightarrow>
   string \<Rightarrow> conn_option list \<Rightarrow> (goerr + conn_status) \<times> nats_option list option \<times> log_entry list" where
  "Connect getenv w dial url opts =
     (if url = [] then (Inl (NewErr ''nuts: nats url is empty''), None, [])
      else let cfg = resolve_config opts
      in case resolve_tls getenv w cfg of
           Inl e \<Rightarrow> (Inl e, None, [])
         | Inr tls \<Rightarrow>
             let os = nats_options cfg tls
             in case dial url os of
                  Inl e \<Rightarrow> (Inl (Errorf ''nuts: connect to NATS'' e), Some os, [])
                | Inr status \<Rightarrow>
                    if status \<noteq> StatusConnected
                    then (Inr status, Some os,
                          [LogEntry LevelWarn (ccName cfg) ''nuts: NATS not yet connected; retrying in background''])
                    else (Inr status, Some os, [LogEntry LevelInfo (ccName cfg) ''nuts: NATS connected'']))"

section \<open>Lame duck\<close>

fun is_disconnect :: "lifecycle_event \<Rightarrow> bool" where
  "is_disconnect (Disconnected e) = True"
| "is_disconnect _ = False"

text \<open>What the flag stands for: a lame-duck notice since the last disconnect.\<close>

definition eviction_announced :: "lifecycle_event list \<Rightarrow> bool" where
  "eviction_announced evs \<longleftrightarrow> LameDuck \<in> set (takeWhile (\<lambda>ev. \<not> is_disconnect ev) (rev evs))"

lemma flag_after_snoc [simp]: "flag_after nm (evs @ [ev]) = fst (on_event nm ev (flag_after nm evs))"
  by (simp add: flag_after_def)

lemma flag_after_announced: "flag_after nm evs = eviction_announced evs"
proof (induction evs rule: rev_induct)
  case Nil
  then show ?case by (simp add: flag_after_def eviction_announced_def)
next
  case (snoc ev evs)
  then show ?case by (cases ev) (auto simp: eviction_announced_def split: option.split)
qed

text \<open>
  The severity of a disconnect. After any history of lifecycle events, a disconnect with an error
  is logged as a warning exactly when the server announced lame duck mode since the previous
  disconnect and as an error otherwise, a deliberate one (no error) as information; and either kind
  disarms the flag, so one announcement never downgrades two disconnects.
\<close>

theorem disconnect_severity:
  "snd (on_event nm (Disconnected (Some e)) (flag_after nm evs)) =
     LogEntry (if eviction_announced evs then LevelWarn else LevelError) nm ''nuts: NATS disconnected'' \<and>
   snd (on_event nm (Disconnected None) (flag_after nm evs)) =
     LogEntry LevelInfo nm ''nuts: NATS disconnected'' \<and>
   \<not> flag_after nm (evs @ [Disconnected err]) \<and>
   flag_after nm (evs @ [LameDuck])"
  by (simp add: flag_after_announced eviction_announced_def split: option.split)

section \<open>No silent plaintext\<close>

fun chooses_tls :: "conn_option \<Rightarrow> bool" where
  "chooses_tls (WithTLSConfig t) = True"
| "chooses_tls WithoutTLS = True"
| "chooses_tls _ = False"

lemma apply_option_tls:
  "\<not> chooses_tls opt \<Longrightarrow> ccTLS (apply_option opt c) = ccTLS c \<and> ccTLSFromEnv (apply_option opt c) = ccTLSFromEnv c"
  by (cases opt) simp_all

lemma apply_options_tls:
  "list_all (\<lambda>opt. \<not> chooses_tls opt) opts \<Longrightarrow>
     ccTLS (fold apply_option opts c) = ccTLS c \<and> ccTLSFromEnv (fold apply_option opts c) = ccTLSFromEnv c"
  by (induction opts arbitrary: c) (simp_all add: apply_option_tls)

lemma apply_option_reconnects [simp]: "ccMaxReconnects (apply_option opt c) = ccMaxReconnects c"
  by (cases opt) simp_all

lemma apply_options_reconnects [simp]: "ccMaxReconnects (fold apply_option opts c) = ccMaxReconnects c"
  by (induction opts arbitrary: c) simp_all

lemma resolve_config_reconnects: "ccMaxReconnects (resolve_config opts) = - 1"
  by (simp add: resolve_config_def Let_def)

lemma tlsConfigFromEnv_Inr:
  "tlsConfigFromEnv getenv w = Inr t \<longleftrightarrow>
     getenv envTLSCert \<noteq> [] \<and> getenv envTLSKey \<noteq> [] \<and> getenv envTLSCA \<noteq> [] \<and>
     TLSConfigFromFiles w (getenv envTLSCert) (getenv envTLSKey) (getenv envTLSCA) = Inr t"
  by (simp add: tlsConfigFromEnv_def Let_def)

lemma TLSConfigFromFiles_Inr:
  "TLSConfigFromFiles w cert key ca = Inr t \<longleftrightarrow>
     t = RotatingTLS cert key ca VersionTLS13 True \<and> (\<exists>kp. twLoadKeyPair w cert key = Inr kp) \<and>
     (\<exists>pool. caPoolFromFile w ca = Inr pool)"
  by (auto simp: TLSConfigFromFiles_def split: sum.splits)

text \<open>
  C26. No silent plaintext, and reconnect forever. When no option chose the TLS configuration, the
  server is dialled only with the full mutual-TLS identity of the environment: all three variables
  set, the key pair loaded and the CA bundle parsed, at TLS 1.3 or later; otherwise \<open>Connect\<close> returns an error without
  dialling. Whatever the options, the dial's own options ask for unlimited reconnects and end with the
  caller's raw options, after everything the module sets.
\<close>

theorem no_silent_plaintext:
  assumes "list_all (\<lambda>opt. \<not> chooses_tls opt) opts"
    and "Connect getenv w dial url opts = (res, dialled, logs)"
  shows "(case dialled of
        None \<Rightarrow> (\<exists>e. res = Inl e)
      | Some os \<Rightarrow>
          NatsSecure (RotatingTLS (getenv envTLSCert) (getenv envTLSKey) (getenv envTLSCA) VersionTLS13 True) \<in> set os \<and>
          getenv envTLSCert \<noteq> [] \<and> getenv envTLSKey \<noteq> [] \<and> getenv envTLSCA \<noteq> [] \<and>
          (\<exists>kp. twLoadKeyPair w (getenv envTLSCert) (getenv envTLSKey) = Inr kp) \<and>
          (\<exists>pool. caPoolFromFile w (getenv envTLSCA) = Inr pool) \<and>
          NatsMaxReconnects (- 1) \<in> set os \<and>
          (\<exists>own. os = own @ map NatsExtra (ccExtra (resolve_config opts))))"
proof -
  let ?cfg = "resolve_config opts"
  have env: "ccTLS ?cfg = None" "ccTLSFromEnv ?cfg"
    using apply_options_tls [OF assms(1)] by (simp_all add: resolve_config_def Let_def)
  have own: "\<exists>own. nats_options ?cfg t = own @ map NatsExtra (ccExtra ?cfg)" for t
    by (simp add: nats_options_def)
  have reconnects: "NatsMaxReconnects (- 1) \<in> set (nats_options ?cfg t)" for t
    by (simp add: nats_options_def resolve_config_reconnects)
  show ?thesis
  proof (cases "url = [] \<or> (\<exists>e. tlsConfigFromEnv getenv w = Inl e)")
    case True
    then have "dialled = None \<and> (\<exists>e. res = Inl e)"
      using assms(2) env by (cases "url = []") (auto simp: Connect_def Let_def resolve_tls_def)
    then show ?thesis by auto
  next
    case False
    then obtain t where t: "tlsConfigFromEnv getenv w = Inr t" "url \<noteq> []"
      by (cases "tlsConfigFromEnv getenv w") auto
    have "resolve_tls getenv w ?cfg = Inr (Some t)" using env t by (simp add: resolve_tls_def)
    then have "dialled = Some (nats_options ?cfg (Some t))"
      using assms(2) t(2) by (auto simp: Connect_def Let_def split: sum.splits if_splits)
    moreover have "NatsSecure t \<in> set (nats_options ?cfg (Some t))" by (simp add: nats_options_def)
    ultimately show ?thesis
      using t(1) own reconnects by (auto simp: tlsConfigFromEnv_Inr TLSConfigFromFiles_Inr)
  qed
qed

definition demo_tls_world :: tls_world where
  "demo_tls_world = \<lparr>twLoadKeyPair = (\<lambda>_ _. Inr 1), twReadFile = (\<lambda>_. Inr [45]),
     twParsePEM = (\<lambda>bytes. if bytes = [] then [] else [7]), twVerify = (\<lambda>_ _ _ _. None)\<rparr>"

theorem no_silent_plaintext_witness:
  "NatsSecure (RotatingTLS ''f'' ''f'' ''f'' VersionTLS13 True) \<in>
     set (the (fst (snd (Connect (\<lambda>_. ''f'') demo_tls_world (\<lambda>_ _. Inr StatusConnected) ''nats'' [WithName ''w'']))))"
proof -
  obtain res dialled logs where c:
    "Connect (\<lambda>_. ''f'') demo_tls_world (\<lambda>_ _. Inr StatusConnected) ''nats'' [WithName ''w''] = (res, dialled, logs)"
    by (metis prod.exhaust)
  moreover have "dialled \<noteq> None"
    using c by (auto simp: Connect_def Let_def resolve_config_def resolve_tls_def tlsConfigFromEnv_def
        TLSConfigFromFiles_def caPoolFromFile_def demo_tls_world_def)
  ultimately show ?thesis using no_silent_plaintext [OF _ c] by (auto split: option.splits)
qed

section \<open>Rotation\<close>

text \<open>
  Trust is re-read at every handshake. A server is accepted exactly when the CA file, as it is at
  that moment, can be read and holds a certificate, the server presents a chain, and its leaf verifies
  against those very roots for the host name it was dialled by, with the rest of the chain as
  intermediates; so a rotated CA takes effect without a restart, and an unreadable one fails closed.
\<close>

theorem handshake_uses_current_roots:
  "(verify_connection w ca cs = None) =
     (\<exists>bytes leaf rest. twReadFile w ca = Inr bytes \<and> twParsePEM w bytes \<noteq> [] \<and>
        csPeerCertificates cs = leaf # rest \<and>
        twVerify w (twParsePEM w bytes) (csServerName cs) rest leaf = None)"
  by (auto simp: verify_connection_def caPoolFromFile_def Let_def split: sum.splits list.splits)

end
