(* ===== verification/Shutdown.thy ===== *)
theory Shutdown
  imports Transition DrainConn Connect "HOL-Library.Multiset"
begin

text \<open>
  \<open>shutdown.go\<close>: the shutdown group as a state machine. \<open>group\<close> holds the struct's fields, the loops the
  wait group tracks (each with how far it is in its deferred functions), and how far the one
  \<open>shutdown()\<close> call has come. Every critical section of the code is one transition of \<open>sg_step\<close> and
  what happens between two critical sections (the cancel after a recorded failure, the \<open>wg.Done\<close>, the
  closing of the join channel) is a transition of its own, so that any interleaving of loops,
  registrations, the parent's cancellation and the shutdown is a run. The
  invariants are interpretations of \<open>inductive_invariant\<close> and the termination of the shutdown one of
  \<open>ranked_progress\<close> (theory \<open>Transition\<close>).
\<close>

section \<open>State\<close>

definition DefaultJoinTimeout :: duration where
  "DefaultJoinTimeout = 15 * second"

text \<open>A tracked loop: its function runs; it recorded a failure and has yet to cancel the group with it
  (a premature return also logs then); it has yet to call \<open>wg.Done\<close>; it is done.\<close>

datatype loop = Running | CancelDue goerr bool | Exiting | Joined

datatype phase = NotStarted | Marked | Joining | JoinExpired | Draining | Finished

text \<open>The phases in the order \<open>shutdown()\<close> passes through them.\<close>

fun phase_rank :: "phase \<Rightarrow> nat" where
  "phase_rank NotStarted = 0"
| "phase_rank Marked = 1"
| "phase_rank Joining = 2"
| "phase_rank JoinExpired = 3"
| "phase_rank Draining = 4"
| "phase_rank Finished = 5"

instantiation phase :: linorder
begin

definition less_eq_phase :: "phase \<Rightarrow> phase \<Rightarrow> bool" where
  "less_eq_phase p q \<longleftrightarrow> phase_rank p \<le> phase_rank q"

definition less_phase :: "phase \<Rightarrow> phase \<Rightarrow> bool" where
  "less_phase p q \<longleftrightarrow> phase_rank p < phase_rank q"

instance
proof
  fix p q :: phase
  show "p \<le> q \<Longrightarrow> q \<le> p \<Longrightarrow> p = q" by (cases p; cases q) (simp_all add: less_eq_phase_def)
qed (auto simp: less_eq_phase_def less_phase_def)

end

record group =
  sgCause :: "goerr option"
  sgLogger :: logger
  sgJoinTimeout :: duration
  sgDrainTimeout :: duration
  sgLoops :: "loop list"
  sgConns :: "(string \<times> nats_conn option) list"
  sgClosed :: bool
  sgErr :: "goerr option"
  sgPhase :: phase
  sgJoinDone :: bool
  sgPending :: "nat list"
  sgDrained :: "nat list"
  sgLog :: "log_entry list"

datatype group_option =
    WithGroupLogger "logger option"
  | WithJoinTimeout duration
  | WithGroupDrainTimeout duration

fun apply_group_option :: "group_option \<Rightarrow> logger option \<times> duration \<times> duration \<Rightarrow> logger option \<times> duration \<times> duration" where
  "apply_group_option (WithGroupLogger l) (lg, j, d) = (l, j, d)"
| "apply_group_option (WithJoinTimeout t) (lg, j, d) = (lg, t, d)"
| "apply_group_option (WithGroupDrainTimeout t) (lg, j, d) = (lg, j, t)"

text \<open>\<open>cause\<close> is the parent's, when it is already cancelled.\<close>

definition NewShutdownGroup :: "goerr option \<Rightarrow> group_option list \<Rightarrow> group" where
  "NewShutdownGroup cause opts =
     (let (lg, j, d) = fold apply_group_option opts (Some DefaultLogger, DefaultJoinTimeout, DefaultDrainTimeout)
      in \<lparr>sgCause = cause, sgLogger = (case lg of None \<Rightarrow> DefaultLogger | Some l \<Rightarrow> l),
          sgJoinTimeout = j, sgDrainTimeout = d, sgLoops = [], sgConns = [], sgClosed = False,
          sgErr = None, sgPhase = NotStarted, sgJoinDone = False, sgPending = [], sgDrained = [], sgLog = []\<rparr>)"

section \<open>Operations\<close>

definition Group_Err :: "group \<Rightarrow> goerr option" where
  "Group_Err g = sgErr g"

definition group_log :: "log_level \<Rightarrow> string \<Rightarrow> group \<Rightarrow> group" where
  "group_log lv msg g = g\<lparr>sgLog := sgLog g @ [LogEntry lv [] msg]\<rparr>"

text \<open>The first cancellation of the context sets its cause; \<open>cancel(nil)\<close> sets \<open>Canceled\<close>.\<close>

definition cancel_group :: "goerr option \<Rightarrow> group \<Rightarrow> group" where
  "cancel_group err g =
     (if sgCause g \<noteq> None then g
      else g\<lparr>sgCause := Some (case err of None \<Rightarrow> Sentinel CtxCanceled | Some e \<Rightarrow> e)\<rparr>)"

definition Go :: "group \<Rightarrow> group" where
  "Go g = (if sgClosed g
     then group_log LevelWarn ''nuts: ShutdownGroup.Go called after shutdown; loop not started'' g
     else g\<lparr>sgLoops := sgLoops g @ [Running]\<rparr>)"

definition AddConn :: "string \<Rightarrow> nats_conn option \<Rightarrow> group \<Rightarrow> group" where
  "AddConn name nc g = (if sgClosed g
     then group_log LevelWarn ''nuts: ShutdownGroup.AddConn called after shutdown; connection not registered for drain'' g
     else g\<lparr>sgConns := sgConns g @ [(name, nc)]\<rparr>)"

text \<open>\<open>recordError\<close> and \<open>recordPrematureReturn\<close> up to the unlock: whether the failure was recorded. The
  cancel that follows a recorded failure of a live loop is a transition of its own.\<close>

definition recordError :: "goerr option \<Rightarrow> group \<Rightarrow> bool \<times> group" where
  "recordError err g =
     (if err = None then (False, g)
      else if sgErr g = None then (True, g\<lparr>sgErr := err\<rparr>)
      else (False, g))"

definition premature :: goerr where
  "premature = NewErr ''nuts: background loop returned before shutdown''"

definition panicked :: "string \<Rightarrow> goerr" where
  "panicked v = NewErr (''nuts: background loop panicked: '' @ v)"

definition recordPrematureReturn :: "group \<Rightarrow> bool \<times> group" where
  "recordPrematureReturn g =
     (if sgClosed g \<or> sgCause g \<noteq> None then (False, g)
      else if sgErr g \<noteq> None then (False, g)
      else (True, g\<lparr>sgErr := Some premature\<rparr>))"

definition set_loop :: "nat \<Rightarrow> loop \<Rightarrow> group \<Rightarrow> group" where
  "set_loop i l g = g\<lparr>sgLoops := (sgLoops g)[i := l]\<rparr>"

definition loop_returns :: "nat \<Rightarrow> group \<Rightarrow> group" where
  "loop_returns i g =
     (let (recorded, g1) = recordPrematureReturn g
      in set_loop i (if recorded then CancelDue premature True else Exiting) g1)"

definition loop_panics :: "nat \<Rightarrow> string \<Rightarrow> group \<Rightarrow> group" where
  "loop_panics i v g =
     (let (recorded, g1) = recordError (Some (panicked v)) (group_log LevelError ''nuts: background loop panicked'' g)
      in set_loop i (if recorded then CancelDue (panicked v) False else Exiting) g1)"

definition loop_cancels :: "nat \<Rightarrow> goerr \<Rightarrow> bool \<Rightarrow> group \<Rightarrow> group" where
  "loop_cancels i e logs g =
     (let g1 = cancel_group (Some e) g;
          g2 = (if logs then group_log LevelError ''nuts: background loop returned before shutdown'' g1 else g1)
      in set_loop i Exiting g2)"

definition drainBackstop :: "group \<Rightarrow> nats_conn option \<Rightarrow> duration" where
  "drainBackstop g nc =
     (let subDrain = (case nc of
            Some c \<Rightarrow> if 0 < ncOptDrainTimeout c then ncOptDrainTimeout c else sgDrainTimeout g
          | None \<Rightarrow> sgDrainTimeout g)
      in wrap64 (subDrain + natsPublishDrainTimeout + second))"

text \<open>The steps of \<open>shutdown()\<close>.\<close>

definition mark_closed :: "group \<Rightarrow> group" where
  "mark_closed g = g\<lparr>sgClosed := True, sgPending := [0..<length (sgConns g)], sgPhase := Marked\<rparr>"

definition drain_error :: "group \<Rightarrow> nat \<Rightarrow> goerr option" where
  "drain_error g i =
     (case sgConns g ! i of (name, nc) \<Rightarrow> fst (Drain nc name (drainBackstop g nc)))"

definition drain_one :: "nat \<Rightarrow> group \<Rightarrow> group" where
  "drain_one i g =
     (let g1 = snd (recordError (drain_error g i) g)
      in g1\<lparr>sgPending := remove1 i (sgPending g1), sgDrained := i # sgDrained g1\<rparr>)"

definition joinTimeoutError :: "group \<Rightarrow> goerr" where
  "joinTimeoutError g = NewErr (''nuts: background loop join timeout after '' @ itoa (sgJoinTimeout g))"

inductive shutdown_step :: "group \<Rightarrow> group \<Rightarrow> bool" where
  cancels: "sgPhase g = Marked \<Longrightarrow> shutdown_step g ((cancel_group None g)\<lparr>sgPhase := Joining\<rparr>)"
| joins: "sgPhase g = Joining \<Longrightarrow> sgJoinDone g \<Longrightarrow> shutdown_step g (g\<lparr>sgPhase := Draining\<rparr>)"
| expires: "sgPhase g = Joining \<Longrightarrow> \<not> sgJoinDone g \<Longrightarrow>
     shutdown_step g ((group_log LevelWarn
       ''nuts: background loops did not stop within join timeout; draining anyway'' g)\<lparr>sgPhase := JoinExpired\<rparr>)"
| records_expiry: "sgPhase g = JoinExpired \<Longrightarrow>
     shutdown_step g ((snd (recordError (Some (joinTimeoutError g)) g))\<lparr>sgPhase := Draining\<rparr>)"
| drains: "sgPhase g = Draining \<Longrightarrow> i \<in> set (sgPending g) \<Longrightarrow> shutdown_step g (drain_one i g)"
| finishes: "sgPhase g = Draining \<Longrightarrow> sgPending g = [] \<Longrightarrow> shutdown_step g (g\<lparr>sgPhase := Finished\<rparr>)"

inductive sg_step :: "group \<Rightarrow> group \<Rightarrow> bool" where
  go: "sg_step g (Go g)"
| add: "sg_step g (AddConn name nc g)"
| parent: "sg_step g (cancel_group (Some e) g)"
| returns: "i < length (sgLoops g) \<Longrightarrow> sgLoops g ! i = Running \<Longrightarrow> sg_step g (loop_returns i g)"
| panics: "i < length (sgLoops g) \<Longrightarrow> sgLoops g ! i = Running \<Longrightarrow> sg_step g (loop_panics i v g)"
| propagates: "i < length (sgLoops g) \<Longrightarrow> sgLoops g ! i = CancelDue e logs \<Longrightarrow> sg_step g (loop_cancels i e logs g)"
| exits: "i < length (sgLoops g) \<Longrightarrow> sgLoops g ! i = Exiting \<Longrightarrow> sg_step g (set_loop i Joined g)"
| begins: "sgPhase g = NotStarted \<Longrightarrow> sg_step g (mark_closed g)"
| all_done: "sgPhase g \<noteq> NotStarted \<Longrightarrow> sgPhase g \<noteq> Marked \<Longrightarrow> list_all (\<lambda>l. l = Joined) (sgLoops g) \<Longrightarrow>
     sg_step g (g\<lparr>sgJoinDone := True\<rparr>)"
| shutdown: "shutdown_step g g' \<Longrightarrow> sg_step g g'"

definition fresh_group :: "group \<Rightarrow> bool" where
  "fresh_group g \<longleftrightarrow> (\<exists>cause opts. g = NewShutdownGroup cause opts)"

section \<open>How each operation changes the state\<close>

inductive_cases shutdown_stepE: "shutdown_step g g'"

inductive_cases sg_stepE: "sg_step g g'"

named_theorems group_simps \<open>fields of a group after an operation\<close>

lemma group_log_simps [simp, group_simps]:
  "sgCause (group_log lv m g) = sgCause g" "sgLoops (group_log lv m g) = sgLoops g"
  "sgConns (group_log lv m g) = sgConns g" "sgClosed (group_log lv m g) = sgClosed g"
  "sgErr (group_log lv m g) = sgErr g" "sgPhase (group_log lv m g) = sgPhase g"
  "sgJoinDone (group_log lv m g) = sgJoinDone g" "sgPending (group_log lv m g) = sgPending g"
  "sgDrained (group_log lv m g) = sgDrained g" "sgDrainTimeout (group_log lv m g) = sgDrainTimeout g"
  by (simp_all add: group_log_def)

lemma cancel_group_simps [simp, group_simps]:
  "sgCause (cancel_group e g) \<noteq> None" "sgLoops (cancel_group e g) = sgLoops g"
  "sgConns (cancel_group e g) = sgConns g" "sgClosed (cancel_group e g) = sgClosed g"
  "sgErr (cancel_group e g) = sgErr g" "sgPhase (cancel_group e g) = sgPhase g"
  "sgJoinDone (cancel_group e g) = sgJoinDone g" "sgPending (cancel_group e g) = sgPending g"
  "sgDrained (cancel_group e g) = sgDrained g" "sgDrainTimeout (cancel_group e g) = sgDrainTimeout g"
  by (simp_all add: cancel_group_def)

lemma cancel_group_cause [simp]: "\<exists>e'. sgCause (cancel_group e g) = Some e'"
  by (simp add: cancel_group_def split: option.split)

lemma set_loop_simps [simp, group_simps]:
  "sgCause (set_loop i l g) = sgCause g" "sgLoops (set_loop i l g) = (sgLoops g)[i := l]"
  "sgConns (set_loop i l g) = sgConns g" "sgClosed (set_loop i l g) = sgClosed g"
  "sgErr (set_loop i l g) = sgErr g" "sgPhase (set_loop i l g) = sgPhase g"
  "sgJoinDone (set_loop i l g) = sgJoinDone g" "sgPending (set_loop i l g) = sgPending g"
  "sgDrained (set_loop i l g) = sgDrained g" "sgDrainTimeout (set_loop i l g) = sgDrainTimeout g"
  by (simp_all add: set_loop_def)

lemma recordError_simps [simp, group_simps]:
  "sgCause (snd (recordError e g)) = sgCause g" "sgLoops (snd (recordError e g)) = sgLoops g"
  "sgConns (snd (recordError e g)) = sgConns g" "sgClosed (snd (recordError e g)) = sgClosed g"
  "sgPhase (snd (recordError e g)) = sgPhase g" "sgJoinDone (snd (recordError e g)) = sgJoinDone g"
  "sgPending (snd (recordError e g)) = sgPending g" "sgDrained (snd (recordError e g)) = sgDrained g"
  "sgDrainTimeout (snd (recordError e g)) = sgDrainTimeout g"
  "sgErr (snd (recordError e g)) = (if sgErr g = None then e else sgErr g)"
  "fst (recordError e g) = (e \<noteq> None \<and> sgErr g = None)"
  by (auto simp: recordError_def)

lemma recordPrematureReturn_simps [simp, group_simps]:
  "sgCause (snd (recordPrematureReturn g)) = sgCause g" "sgLoops (snd (recordPrematureReturn g)) = sgLoops g"
  "sgConns (snd (recordPrematureReturn g)) = sgConns g" "sgClosed (snd (recordPrematureReturn g)) = sgClosed g"
  "sgPhase (snd (recordPrematureReturn g)) = sgPhase g" "sgJoinDone (snd (recordPrematureReturn g)) = sgJoinDone g"
  "sgPending (snd (recordPrematureReturn g)) = sgPending g" "sgDrained (snd (recordPrematureReturn g)) = sgDrained g"
  "sgDrainTimeout (snd (recordPrematureReturn g)) = sgDrainTimeout g"
  "fst (recordPrematureReturn g) = (\<not> sgClosed g \<and> sgCause g = None \<and> sgErr g = None)"
  "sgErr (snd (recordPrematureReturn g)) =
     (if \<not> sgClosed g \<and> sgCause g = None \<and> sgErr g = None then Some premature else sgErr g)"
  by (auto simp: recordPrematureReturn_def)

lemma drainBackstop_cong: "sgDrainTimeout g = sgDrainTimeout g' \<Longrightarrow> drainBackstop g = drainBackstop g'"
  by (auto simp: fun_eq_iff drainBackstop_def split: option.split)

lemmas op_defs = Go_def AddConn_def loop_returns_def loop_panics_def loop_cancels_def mark_closed_def
  drain_one_def case_prod_unfold Let_def

section \<open>The first failure wins, and nothing registers late\<close>

lemma step_keeps_err: "sg_step g g' \<Longrightarrow> sgErr g = Some e \<Longrightarrow> sgErr g' = Some e"
  by (erule sg_stepE) (auto simp: op_defs elim!: shutdown_stepE)

lemma step_keeps_cause: "sg_step g g' \<Longrightarrow> sgCause g = Some e \<Longrightarrow> sgCause g' = Some e"
  by (erule sg_stepE) (auto simp: op_defs cancel_group_def elim!: shutdown_stepE)

lemma step_frozen:
  "sg_step g g' \<Longrightarrow> sgClosed g \<Longrightarrow>
     sgClosed g' \<and> length (sgLoops g') = length (sgLoops g) \<and> sgConns g' = sgConns g"
  by (erule sg_stepE) (auto simp: op_defs elim!: shutdown_stepE)

lemma phase_advances: "sg_step g g' \<Longrightarrow> sgPhase g \<le> sgPhase g'"
  by (erule sg_stepE) (auto simp: op_defs less_eq_phase_def elim!: shutdown_stepE)

lemma phases_advance: "rtranclp sg_step g g' \<Longrightarrow> sgPhase g \<le> sgPhase g'"
  by (induction rule: rtranclp_induct) (auto dest: phase_advances intro: order_trans)

interpretation first_error: inductive_invariant "\<lambda>g. sgErr g = Some e" sg_step "\<lambda>g. sgErr g = Some e" for e
  by unfold_locales (auto intro: step_keeps_err)

interpretation first_cause: inductive_invariant "\<lambda>g. sgCause g = Some e" sg_step "\<lambda>g. sgCause g = Some e" for e
  by unfold_locales (auto intro: step_keeps_cause)

interpretation frozen: inductive_invariant
  "\<lambda>g. sgClosed g \<and> length (sgLoops g) = n \<and> sgConns g = cs" sg_step
  "\<lambda>g. sgClosed g \<and> length (sgLoops g) = n \<and> sgConns g = cs" for n cs
  by unfold_locales (auto dest: step_frozen)

text \<open>
  C24. Along every run, whatever the interleaving: the first recorded failure is the one \<open>Err\<close> and
  \<open>Shutdown\<close> report for ever after, the first cancellation fixes the cause of the context, once
  shutdown has marked the group closed no loop and no connection joins it, and the shutdown never goes
  back to an earlier phase.
\<close>

theorem first_failure_wins:
  assumes "rtranclp sg_step g g'"
  shows "(sgErr g \<noteq> None \<longrightarrow> Group_Err g' = Group_Err g) \<and>
     (sgCause g \<noteq> None \<longrightarrow> sgCause g' = sgCause g) \<and>
     (sgClosed g \<longrightarrow> sgClosed g' \<and> length (sgLoops g') = length (sgLoops g) \<and> sgConns g' = sgConns g) \<and>
     sgPhase g \<le> sgPhase g'"
  using phases_advance [OF assms] first_error.along [OF assms] first_cause.along [OF assms]
    frozen.along [OF assms, of "length (sgLoops g)" "sgConns g"]
  by (auto simp: Group_Err_def)

definition failed_run :: "group \<times> group" where
  "failed_run = (let g = Go (NewShutdownGroup None []) in (loop_panics 0 ''nil map'' g, loop_cancels 0 (panicked ''nil map'') False (loop_panics 0 ''nil map'' g)))"

theorem first_failure_wins_witness:
  "Group_Err (snd failed_run) = Some (panicked ''nil map'') \<and> sgCause (snd failed_run) = Some (panicked ''nil map'')"
proof -
  let ?g = "fst failed_run"
  have "sg_step ?g (loop_cancels 0 (panicked ''nil map'') False ?g)"
    by (rule sg_step.propagates)
      (simp_all add: failed_run_def Let_def loop_panics_def Go_def NewShutdownGroup_def case_prod_unfold)
  then have "rtranclp sg_step ?g (snd failed_run)" by (simp add: failed_run_def Let_def)
  from first_failure_wins [OF this] show ?thesis
    by (simp add: failed_run_def Let_def loop_panics_def loop_cancels_def Go_def NewShutdownGroup_def
        case_prod_unfold Group_Err_def cancel_group_def set_loop_def recordError_def group_log_def)
qed

section \<open>The invariant\<close>

definition ordering :: "group \<Rightarrow> bool" where
  "ordering g \<longleftrightarrow>
     (sgClosed g = (sgPhase g \<noteq> NotStarted)) \<and>
     (sgPhase g \<noteq> NotStarted \<and> sgPhase g \<noteq> Marked \<longrightarrow> sgCause g \<noteq> None) \<and>
     (sgJoinDone g \<longrightarrow> sgClosed g \<and> list_all (\<lambda>l. l = Joined) (sgLoops g)) \<and>
     (sgPhase g = Draining \<or> sgPhase g = Finished \<longrightarrow> sgJoinDone g \<or> sgErr g \<noteq> None)"

definition drain_ledger :: "group \<Rightarrow> bool" where
  "drain_ledger g \<longleftrightarrow>
     (if sgClosed g then mset (sgPending g) + mset (sgDrained g) = mset [0..<length (sgConns g)]
      else sgPending g = [] \<and> sgDrained g = []) \<and>
     (sgDrained g \<noteq> [] \<longrightarrow> sgPhase g = Draining \<or> sgPhase g = Finished) \<and>
     (sgPhase g = Finished \<longrightarrow> sgPending g = []) \<and>
     (\<forall>i \<in> set (sgDrained g). drain_error g i \<noteq> None \<longrightarrow> sgErr g \<noteq> None)"

fun is_due :: "loop \<Rightarrow> bool" where
  "is_due (CancelDue e logs) = True"
| "is_due _ = False"

definition failure_cancels :: "group \<Rightarrow> bool" where
  "failure_cancels g \<longleftrightarrow> (sgErr g \<noteq> None \<and> \<not> sgClosed g \<longrightarrow>
     sgCause g \<noteq> None \<or> list_ex is_due (sgLoops g))"

lemma fresh_simps:
  assumes "fresh_group g"
  shows "\<not> sgClosed g" "sgPhase g = NotStarted" "sgErr g = None" "\<not> sgJoinDone g"
    "sgPending g = []" "sgDrained g = []" "sgLoops g = []"
  using assms by (auto simp: fresh_group_def NewShutdownGroup_def case_prod_unfold Let_def)

lemma all_joined_update:
  "list_all (\<lambda>l. l = Joined) ls \<Longrightarrow> i < length ls \<Longrightarrow> ls ! i = l \<Longrightarrow> l \<noteq> Joined \<Longrightarrow> False"
  by (auto simp: list_all_length)

lemma ordering_shutdown: "ordering g \<Longrightarrow> shutdown_step g g' \<Longrightarrow> ordering g'"
  by (erule shutdown_stepE) (auto simp: ordering_def op_defs)

lemma ordering_step:
  assumes "ordering g" "sg_step g g'"
  shows "ordering g'"
  using assms(2)
proof cases
  case (shutdown)
  then show ?thesis using assms(1) ordering_shutdown by blast
next
  case (returns i)
  then show ?thesis using assms(1) all_joined_update [of "sgLoops g" i Running]
    by (auto simp: ordering_def op_defs)
next
  case (panics i v)
  then show ?thesis using assms(1) all_joined_update [of "sgLoops g" i Running]
    by (auto simp: ordering_def op_defs)
next
  case (propagates i e logs)
  then show ?thesis using assms(1) all_joined_update [of "sgLoops g" i "CancelDue e logs"]
    by (auto simp: ordering_def op_defs)
next
  case (exits i)
  then show ?thesis using assms(1) all_joined_update [of "sgLoops g" i Exiting]
    by (auto simp: ordering_def op_defs)
next
  case go
  then show ?thesis using assms(1) by (cases "sgClosed g") (simp_all add: ordering_def Go_def)
next
  case add
  then show ?thesis using assms(1) by (cases "sgClosed g") (simp_all add: ordering_def AddConn_def)
next
  case parent
  then show ?thesis using assms(1) by (auto simp: ordering_def)
next
  case begins
  then show ?thesis using assms(1) by (simp add: ordering_def mark_closed_def)
next
  case all_done
  then show ?thesis using assms(1) by (auto simp: ordering_def)
qed

interpretation group_ordering: inductive_invariant fresh_group sg_step ordering
  by unfold_locales (simp add: ordering_def fresh_simps, rule ordering_step)

lemma drain_error_cong:
  "sgConns g = sgConns g' \<Longrightarrow> sgDrainTimeout g = sgDrainTimeout g' \<Longrightarrow> drain_error g = drain_error g'"
  using drainBackstop_cong [of g g'] by (simp add: fun_eq_iff drain_error_def)

lemma drain_error_snd [simp]:
  "drain_error (g\<lparr>sgErr := e, sgPending := ps, sgDrained := ds\<rparr>) = drain_error g"
  by (rule drain_error_cong) simp_all

text \<open>What a step leaves of the ledger's ingredients.\<close>

lemma step_ledger_frame:
  assumes "sg_step g g'" "\<not> shutdown_step g g'" "sgPhase g \<noteq> NotStarted" "sgClosed g"
  shows "sgPending g' = sgPending g" "sgDrained g' = sgDrained g" "sgPhase g' = sgPhase g"
    "sgConns g' = sgConns g" "sgClosed g'" "sgDrainTimeout g' = sgDrainTimeout g"
    "sgErr g \<noteq> None \<Longrightarrow> sgErr g' \<noteq> None"
  using assms by (auto simp: op_defs elim!: sg_stepE)

lemma step_unstarted_frame:
  assumes "sg_step g g'" "sgPhase g = NotStarted" "\<not> sgClosed g"
  shows "(sgClosed g' \<longrightarrow> g' = mark_closed g) \<and>
     (\<not> sgClosed g' \<longrightarrow> sgPending g' = sgPending g \<and> sgDrained g' = sgDrained g \<and> sgPhase g' = NotStarted)"
  using assms(1)
proof cases
  case shutdown
  then show ?thesis using assms(2) by (auto elim: shutdown_stepE)
qed (use assms(2,3) in \<open>simp_all add: op_defs\<close>)

lemma ledger_drain_one:
  assumes "drain_ledger g" "sgPhase g = Draining" "i \<in> set (sgPending g)" "sgClosed g"
  shows "drain_ledger (drain_one i g)"
proof -
  let ?g = "drain_one i g"
  have f: "sgPending ?g = remove1 i (sgPending g)" "sgDrained ?g = i # sgDrained g" "sgPhase ?g = Draining"
    "sgConns ?g = sgConns g" "sgClosed ?g" "sgDrainTimeout ?g = sgDrainTimeout g"
    "sgErr ?g = (if sgErr g = None then drain_error g i else sgErr g)"
    using assms by (simp_all add: op_defs)
  have de: "drain_error ?g = drain_error g" using f by (intro drain_error_cong) simp_all
  have "mset (remove1 i (sgPending g)) + mset (i # sgDrained g) = mset (sgPending g) + mset (sgDrained g)"
    using assms(3) by (simp add: mset_remove1 insert_DiffM2 union_mset_add_mset_right)
  then show ?thesis
    using assms f de unfolding drain_ledger_def by auto
qed

lemma ledger_shutdown:
  assumes "drain_ledger g" "ordering g" "shutdown_step g g'"
  shows "drain_ledger g'"
  using assms(3)
proof cases
  case (drains i)
  then show ?thesis using assms(1,2) ledger_drain_one by (simp add: ordering_def)
next
  case cancels
  have "drain_error g' = drain_error g" by (rule drain_error_cong) (simp_all add: cancels)
  then show ?thesis using assms(1) cancels by (auto simp: drain_ledger_def)
next
  case joins
  have "drain_error g' = drain_error g" by (rule drain_error_cong) (simp_all add: joins)
  then show ?thesis using assms(1) joins by (auto simp: drain_ledger_def)
next
  case expires
  have "drain_error g' = drain_error g" by (rule drain_error_cong) (simp_all add: expires)
  then show ?thesis using assms(1) expires by (auto simp: drain_ledger_def)
next
  case records_expiry
  have "drain_error g' = drain_error g" by (rule drain_error_cong) (simp_all add: records_expiry)
  then show ?thesis using assms(1) records_expiry by (auto simp: drain_ledger_def)
next
  case finishes
  have "drain_error g' = drain_error g" by (rule drain_error_cong) (simp_all add: finishes)
  then show ?thesis using assms(1) finishes by (auto simp: drain_ledger_def)
qed

lemma ledger_step:
  assumes "drain_ledger g" "ordering g" "sg_step g g'"
  shows "drain_ledger g'"
proof (cases "shutdown_step g g'")
  case True
  then show ?thesis using ledger_shutdown assms by blast
next
  case other: False
  show ?thesis
  proof (cases "sgClosed g")
    case True
    then have "sgPhase g \<noteq> NotStarted" using assms(2) by (simp add: ordering_def)
    note f = step_ledger_frame [OF assms(3) other this True]
    have "drain_error g' = drain_error g" using f by (intro drain_error_cong) simp_all
    then show ?thesis using assms(1) f True by (auto simp: drain_ledger_def)
  next
    case False
    then have "sgPhase g = NotStarted" using assms(2) by (simp add: ordering_def)
    from step_unstarted_frame [OF assms(3) this False] show ?thesis
      using assms(1) False
      by (cases "sgClosed g'") (auto simp: drain_ledger_def mark_closed_def)
  qed
qed

interpretation group_ledger: inductive_invariant fresh_group sg_step "\<lambda>g. ordering g \<and> drain_ledger g"
proof unfold_locales
  show "ordering g \<and> drain_ledger g" if "fresh_group g" for g
    using fresh_simps [OF that] by (simp add: ordering_def drain_ledger_def)
  show "ordering g' \<and> drain_ledger g'" if "ordering g \<and> drain_ledger g" "sg_step g g'" for g g'
    using that ordering_step ledger_step by blast
qed

text \<open>A run for evaluation: one connection, no loop, shut down to the end.\<close>

definition demo_conn :: nats_conn where
  "demo_conn = \<lparr>ncIsClosed = False, ncDrainAnswer = None, ncClosedAt = Some 1, ncOptDrainTimeout = 0,
     ncSched = \<lparr>wsWoke = 1, wsPickDone = True, wsRecheck = 1\<rparr>\<rparr>"

definition demo_marked :: group where
  "demo_marked = mark_closed (AddConn ''worker'' (Some demo_conn) (NewShutdownGroup None []))"

definition demo_drained :: group where
  "demo_drained = drain_one 0 ((cancel_group None demo_marked)\<lparr>sgPhase := Joining, sgJoinDone := True, sgPhase := Draining\<rparr>)"

lemma demo_marked_simps [simp]:
  "sgPhase demo_marked = Marked" "sgPending demo_marked = [0]" "sgLoops demo_marked = []"
  "sgDrained demo_marked = []" "sgJoinDone demo_marked = False"
  "sgConns demo_marked = [(''worker'', Some demo_conn)]" "sgErr demo_marked = None"
  by (simp_all add: demo_marked_def mark_closed_def AddConn_def NewShutdownGroup_def)

lemma demo_reachable_drained: "reachable fresh_group sg_step demo_drained"
proof -
  let ?m = "cancel_group None demo_marked"
  have "reachable fresh_group sg_step (NewShutdownGroup None [])"
    by (rule reachable.start) (auto simp: fresh_group_def)
  then have "reachable fresh_group sg_step (AddConn ''worker'' (Some demo_conn) (NewShutdownGroup None []))"
    by (rule reachable.after) (rule sg_step.add)
  then have "reachable fresh_group sg_step demo_marked"
    unfolding demo_marked_def by (rule reachable.after) (rule sg_step.begins, simp add: AddConn_def NewShutdownGroup_def)
  then have "reachable fresh_group sg_step (?m\<lparr>sgPhase := Joining\<rparr>)"
    by (rule reachable.after) (rule sg_step.shutdown, rule shutdown_step.cancels, simp)
  then have "reachable fresh_group sg_step (?m\<lparr>sgPhase := Joining\<rparr>\<lparr>sgJoinDone := True\<rparr>)"
    by (rule reachable.after) (rule sg_step.all_done, simp_all)
  then have "reachable fresh_group sg_step (?m\<lparr>sgPhase := Joining\<rparr>\<lparr>sgJoinDone := True\<rparr>\<lparr>sgPhase := Draining\<rparr>)"
    by (rule reachable.after) (rule sg_step.shutdown, rule shutdown_step.joins, simp_all)
  then show ?thesis
    unfolding demo_drained_def by (rule reachable.after) (rule sg_step.shutdown, rule shutdown_step.drains, simp_all)
qed

lemma demo_drained_simps [simp]:
  "sgPhase demo_drained = Draining" "sgPending demo_drained = []" "sgDrained demo_drained = [0]"
  by (simp_all add: demo_drained_def op_defs)

lemma demo_reachable_finished: "reachable fresh_group sg_step (demo_drained\<lparr>sgPhase := Finished\<rparr>)"
  using demo_reachable_drained by (rule reachable.after) (rule sg_step.shutdown, rule shutdown_step.finishes, simp_all)

text \<open>
  C5. Drain after join. In every reachable state of every interleaving, a connection has been drained
  only after the group was marked closed and its context cancelled, and after every tracked loop had
  returned or a failure (at the latest the join timeout's) was recorded for \<open>Shutdown\<close> to report.
\<close>

theorem drain_only_after_join:
  assumes "reachable fresh_group sg_step g" and "sgDrained g \<noteq> []"
  shows "sgClosed g \<and> sgCause g \<noteq> None \<and>
     (list_all (\<lambda>l. l = Joined) (sgLoops g) \<or> Group_Err g \<noteq> None)"
  using group_ledger.always [OF assms(1)] assms(2)
  by (auto simp: ordering_def drain_ledger_def Group_Err_def)

theorem drain_only_after_join_witness:
  "sgClosed demo_drained \<and> sgCause demo_drained \<noteq> None"
  using drain_only_after_join [OF demo_reachable_drained] by simp

text \<open>
  C6. What a nil \<open>Shutdown\<close> means. When the shutdown has finished, every connection registered before
  it began has been drained exactly once and no other; and when \<open>Shutdown\<close> then returns nil, every loop
  has returned and every one of those drains succeeded.
\<close>

theorem nil_shutdown_is_clean:
  assumes "reachable fresh_group sg_step g" and "sgPhase g = Finished"
  shows "mset (sgDrained g) = mset [0..<length (sgConns g)] \<and>
     (Group_Err g = None \<longrightarrow> list_all (\<lambda>l. l = Joined) (sgLoops g) \<and>
        (\<forall>i < length (sgConns g). drain_error g i = None))"
proof -
  have inv: "ordering g" "drain_ledger g" using group_ledger.always [OF assms(1)] by simp_all
  then have m: "mset (sgDrained g) = mset [0..<length (sgConns g)]"
    using assms(2) by (auto simp: ordering_def drain_ledger_def split: if_splits)
  then have "set (sgDrained g) = {0..<length (sgConns g)}" by (metis mset_eq_setD set_upt)
  then show ?thesis
    using m inv assms(2) by (auto simp: ordering_def drain_ledger_def Group_Err_def)
qed

theorem nil_shutdown_is_clean_witness:
  "mset (sgDrained (demo_drained\<lparr>sgPhase := Finished\<rparr>)) = mset [0..<length (sgConns (demo_drained\<lparr>sgPhase := Finished\<rparr>))]"
  using nil_shutdown_is_clean [OF demo_reachable_finished] by simp

section \<open>A live failure stops the group\<close>

lemma due_update:
  "list_ex is_due ls \<Longrightarrow> \<not> is_due (ls ! i) \<Longrightarrow> list_ex is_due (ls[i := l])"
proof -
  assume "list_ex is_due ls" and ni: "\<not> is_due (ls ! i)"
  then obtain k where "k < length ls" "is_due (ls ! k)" by (auto simp: list_ex_length)
  moreover have "k \<noteq> i" using calculation ni by auto
  ultimately show ?thesis by (auto simp: list_ex_length intro!: exI [of _ k])
qed

lemma due_update_new: "i < length ls \<Longrightarrow> is_due l \<Longrightarrow> list_ex is_due (ls[i := l])"
  by (auto simp: list_ex_length intro!: exI [of _ i])

lemma failure_cancels_step:
  assumes "failure_cancels g" "ordering g" "sg_step g g'"
  shows "failure_cancels g'"
  using assms(3)
proof cases
  case go
  then show ?thesis using assms(1) by (auto simp: failure_cancels_def Go_def)
next
  case (returns i)
  then show ?thesis using assms(1) due_update [of "sgLoops g" i] due_update_new [of i "sgLoops g"]
    by (auto simp: failure_cancels_def loop_returns_def case_prod_unfold)
next
  case (panics i v)
  then show ?thesis using assms(1) due_update [of "sgLoops g" i] due_update_new [of i "sgLoops g"]
    by (auto simp: failure_cancels_def loop_panics_def case_prod_unfold)
next
  case (propagates i e logs)
  then show ?thesis by (auto simp: failure_cancels_def loop_cancels_def Let_def)
next
  case (exits i)
  then show ?thesis using assms(1) due_update [of "sgLoops g" i] by (auto simp: failure_cancels_def)
next
  case shutdown
  then have "sgClosed g'" using assms(2) by (auto simp: ordering_def op_defs elim!: shutdown_stepE)
  then show ?thesis by (simp add: failure_cancels_def)
qed (use assms(1) in \<open>auto simp: failure_cancels_def op_defs\<close>)

interpretation group_failures: inductive_invariant fresh_group sg_step "\<lambda>g. ordering g \<and> failure_cancels g"
proof unfold_locales
  show "ordering g \<and> failure_cancels g" if "fresh_group g" for g
    using fresh_simps [OF that] by (simp add: ordering_def failure_cancels_def)
  show "ordering g' \<and> failure_cancels g'" if "ordering g \<and> failure_cancels g" "sg_step g g'" for g g'
    using that ordering_step failure_cancels_step by blast
qed

lemma no_premature_step:
  assumes "sg_step g g'" "sgClosed g \<or> sgCause g \<noteq> None" "sgErr g \<noteq> Some premature"
  shows "(sgClosed g' \<or> sgCause g' \<noteq> None) \<and> sgErr g' \<noteq> Some premature"
  using assms(1)
proof cases
  case shutdown
  then show ?thesis using assms(2,3)
  proof cases
    case (drains i)
    have "drain_error g i \<noteq> Some premature"
      by (auto simp: drain_error_def Drain_def premature_def case_prod_unfold split: option.splits if_splits)
    then show ?thesis using drains assms(2,3) by (auto simp: op_defs)
  qed (auto simp: premature_def joinTimeoutError_def)
qed (use assms(2,3) in \<open>auto simp: op_defs premature_def panicked_def\<close>)

interpretation no_premature: inductive_invariant
  "\<lambda>g. (sgClosed g \<or> sgCause g \<noteq> None) \<and> sgErr g \<noteq> Some premature" sg_step
  "\<lambda>g. (sgClosed g \<or> sgCause g \<noteq> None) \<and> sgErr g \<noteq> Some premature"
  by unfold_locales (simp, metis no_premature_step)

text \<open>
  C13. A live failure stops the group, a teardown is no failure. While the group is not marked closed, a
  recorded failure has cancelled the context or some loop is about to cancel it with that failure; and
  once the context is cancelled or the group closed without such a failure, no later return of a loop
  is ever reported as premature.
\<close>

theorem live_failure_cancels:
  assumes "reachable fresh_group sg_step g"
  shows "(Group_Err g \<noteq> None \<and> \<not> sgClosed g \<longrightarrow> sgCause g \<noteq> None \<or> list_ex is_due (sgLoops g)) \<and>
     (\<forall>g'. (sgClosed g \<or> sgCause g \<noteq> None) \<and> Group_Err g \<noteq> Some premature \<and> rtranclp sg_step g g' \<longrightarrow>
        Group_Err g' \<noteq> Some premature)"
  using group_failures.always [OF assms] no_premature.along
  by (auto simp: failure_cancels_def Group_Err_def)

theorem live_failure_cancels_witness:
  "Group_Err (demo_drained\<lparr>sgPhase := Finished\<rparr>) \<noteq> Some premature"
proof -
  have "sgClosed demo_drained" by (simp add: demo_drained_def demo_marked_def op_defs)
  moreover have "sgErr demo_drained \<noteq> Some premature"
    by (auto simp: demo_drained_def op_defs drain_error_def Drain_def premature_def
        split: option.splits if_splits)
  moreover have "sg_step demo_drained (demo_drained\<lparr>sgPhase := Finished\<rparr>)"
    by (rule sg_step.shutdown, rule shutdown_step.finishes) simp_all
  ultimately show ?thesis
    using live_failure_cancels [OF demo_reachable_drained] by (auto simp: Group_Err_def)
qed

section \<open>Shutdown always finishes\<close>

text \<open>The steps the shutdown itself still has to take.\<close>

definition remaining :: "group \<Rightarrow> nat" where
  "remaining g = (case sgPhase g of
      NotStarted \<Rightarrow> 0
    | Marked \<Rightarrow> 4 + length (sgPending g)
    | Joining \<Rightarrow> 3 + length (sgPending g)
    | JoinExpired \<Rightarrow> 2 + length (sgPending g)
    | Draining \<Rightarrow> 1 + length (sgPending g)
    | Finished \<Rightarrow> 0)"

lemma shutdown_decreases: "shutdown_step g g' \<Longrightarrow> remaining g' < remaining g"
proof (erule shutdown_stepE)
  fix i assume d: "g' = drain_one i g" "sgPhase g = Draining" "i \<in> set (sgPending g)"
  then have "0 < length (sgPending g)" by (cases "sgPending g") auto
  then show ?thesis using d by (simp add: remaining_def op_defs length_remove1)
qed (simp_all add: remaining_def)

lemma shutdown_enabled:
  assumes "sgPhase g \<noteq> NotStarted" "sgPhase g \<noteq> Finished"
  shows "\<exists>g'. shutdown_step g g'"
proof (cases "sgPhase g = Draining \<and> sgPending g \<noteq> []")
  case True
  then have "shutdown_step g (drain_one (hd (sgPending g)) g)" by (intro shutdown_step.drains) auto
  then show ?thesis by blast
next
  case False
  with assms show ?thesis
    by (cases "sgPhase g"; cases "sgJoinDone g") (auto intro: shutdown_step.intros)
qed

lemma others_frame:
  assumes "sg_step g g'" "\<not> shutdown_step g g'" "sgPhase g \<noteq> NotStarted"
  shows "sgPending g' = sgPending g \<and> sgPhase g' = sgPhase g"
  using assms by (auto simp: op_defs elim!: sg_stepE)

lemma others_keep_remaining:
  assumes "sg_step g g'" "\<not> shutdown_step g g'" "sgPhase g \<noteq> NotStarted"
  shows "remaining g' = remaining g"
  using others_frame [OF assms] unfolding remaining_def by (elim conjE) (simp only:)

definition shutting_down :: "group \<Rightarrow> bool" where
  "shutting_down g \<longleftrightarrow> sgPhase g \<noteq> NotStarted \<and> sgPhase g \<noteq> Finished"

lemma started_stays: "sg_step g g' \<Longrightarrow> sgPhase g \<noteq> NotStarted \<Longrightarrow> sgPhase g' \<noteq> NotStarted"
  by (cases "shutdown_step g g'") (auto simp: op_defs others_frame elim!: shutdown_stepE)

interpretation shutdown_progress: ranked_progress sg_step shutdown_step shutting_down remaining
proof unfold_locales
  fix g g' assume "shutting_down g" "sg_step g g'" "\<not> shutdown_step g g'"
  then show "remaining g' \<le> remaining g" using others_keep_remaining by (simp add: shutting_down_def)
qed (simp_all add: shutting_down_def shutdown_enabled shutdown_decreases)

interpretation started: inductive_invariant "\<lambda>g. sgPhase g \<noteq> NotStarted" sg_step "\<lambda>g. sgPhase g \<noteq> NotStarted"
  by unfold_locales (simp, rule started_stays)

lemma shutdown_run: "rtranclp shutdown_step g g' \<Longrightarrow> rtranclp sg_step g g'"
  by (rule mono_rtranclp [rule_format]) (auto intro: sg_step.shutdown)

text \<open>
  C18. \<open>Shutdown\<close> always finishes, even when loops never return. From every state in which it has begun,
  by its own steps alone, it can run to its end; and whatever loops, registrations and the parent do in
  between, it takes at most four steps of its own and one per registered connection before it is done.
\<close>

theorem shutdown_always_finishes:
  assumes "sgPhase g \<noteq> NotStarted"
  shows "(\<exists>g'. rtranclp shutdown_step g g' \<and> sgPhase g' = Finished) \<and>
     (\<forall>n g'. counted sg_step shutdown_step shutting_down n (mark_closed g) g' \<longrightarrow> n \<le> 4 + length (sgConns g))"
proof -
  obtain g' where g': "rtranclp shutdown_step g g'" "\<not> shutting_down g'"
    using shutdown_progress.can_finish by blast
  moreover have "sgPhase g' \<noteq> NotStarted"
    using started.along [OF shutdown_run [OF g'(1)] assms] .
  ultimately have "sgPhase g' = Finished" by (simp add: shutting_down_def)
  moreover have "n \<le> 4 + length (sgConns g)"
    if "counted sg_step shutdown_step shutting_down n (mark_closed g) g'" for n g'
    using shutdown_progress.bounded [OF that] by (simp add: remaining_def mark_closed_def)
  ultimately show ?thesis using g'(1) by blast
qed

theorem shutdown_always_finishes_witness:
  "\<exists>g'. rtranclp shutdown_step demo_marked g' \<and> sgPhase g' = Finished"
  using shutdown_always_finishes [of demo_marked] by simp

end
