(* ===== verification/Publish.thy ===== *)
theory Publish
  imports TraceContext DeadLetterCapture
begin

text \<open>
  \<open>natsmsg/publish.go\<close>: the publish core. \<open>publisher_cfg\<close> is the struct \<open>Publisher\<close>, its \<open>JS\<close> handle a
  function of the context and the message; \<open>Publish\<close> returns the acknowledgement or error, the message
  as the caller sees it afterwards (its headers are mutated), the attributes set on the producer span,
  and the trace.
\<close>

definition DefaultPublishTimeout :: duration where
  "DefaultPublishTimeout = 5 * second"

record publisher_cfg =
  pbJS :: publisher
  pbTimeout :: duration
  pbOperation :: string

definition StartProducerSpan ::
  "otel_lib \<Rightarrow> ctx \<Rightarrow> string \<Rightarrow> string \<Rightarrow> span_attr list \<Rightarrow> ctx \<times> span_start" where
  "StartProducerSpan ot c subject name attrs =
     (let base = [AttrString ''messaging.system'' ''nats'',
                  AttrString ''messaging.operation.type'' ''publish'',
                  AttrString ''messaging.destination.name'' subject] @ attrs;
          sp = \<lparr>spName = name, spKind = SpanKindProducer, spAttrs = base\<rparr>
      in (otStart ot c sp, sp))"

definition with_msg_id :: "header_lib \<Rightarrow> string \<Rightarrow> nats_msg \<Rightarrow> nats_msg" where
  "with_msg_id L msgID m =
     (if msgID = [] then m
      else let h = (case nmHeader m of None \<Rightarrow> Map.empty | Some h \<Rightarrow> h)
           in m\<lparr>nmHeader := Some (hSet L h MsgIDHeader msgID)\<rparr>)"

record publish_result =
  prResult :: "goerr + pub_ack"
  prMsg :: nats_msg
  prSpan :: span_start
  prAttrs :: "span_attr list"
  prCalls :: "msg_call list"

definition Publish ::
  "header_lib \<Rightarrow> otel_lib \<Rightarrow> publisher_cfg \<Rightarrow> ctx \<Rightarrow> nats_msg \<Rightarrow> string \<Rightarrow> span_attr list \<Rightarrow> publish_result" where
  "Publish L ot p c m msgID attrs =
     (let name = (if pbOperation p = [] then ''publish '' @ nmSubject m else pbOperation p);
          (c1, sp) = StartProducerSpan ot c (nmSubject m) name attrs;
          idAttrs = (if msgID \<noteq> [] then [AttrString ''messaging.message.id'' msgID] else []);
          out = Inject L ot c1 (with_msg_id L msgID m);
          timeout = (if pbTimeout p = 0 then DefaultPublishTimeout else pbTimeout p);
          pubCtx = withTimeout c1 timeout;
          calls = [CallPublish pubCtx out]
      in case pbJS p pubCtx out of
           Inl e \<Rightarrow> \<lparr>prResult = Inl (Errorf (''natsmsg: publish '' @ nmSubject m) e), prMsg = out,
                     prSpan = sp, prAttrs = idAttrs, prCalls = calls\<rparr>
         | Inr ack \<Rightarrow> \<lparr>prResult = Inr ack, prMsg = out, prSpan = sp,
                     prAttrs = idAttrs @ [AttrString ''messaging.nats.stream'' (paStream ack),
                        AttrInt64 ''messaging.nats.sequence'' (ClampToInt64 (paSequence ack)),
                        AttrBool ''messaging.nats.duplicate'' (paDuplicate ack)],
                     prCalls = calls\<rparr>)"

lemma with_msg_id_frame [simp]:
  "nmSubject (with_msg_id L i m) = nmSubject m" "nmData (with_msg_id L i m) = nmData m"
  by (simp_all add: with_msg_id_def Let_def)

context nats_header
begin

lemma msg_id_published:
  assumes "i \<noteq> []" "map_of (rev (otInject ot c)) MsgIDHeader = None"
    and "nmHeader (Inject L ot c (with_msg_id L i m)) = Some h"
  shows "h MsgIDHeader = Some [i]"
proof -
  have "hValues L (header_of (nmHeader (with_msg_id L i m))) MsgIDHeader = [i]"
    using assms(1) by (simp add: with_msg_id_def Let_def set_eq values_eq)
  then have "HeaderCarrier_Values L h MsgIDHeader = [i]"
    using Inject_header [OF assms(3), of MsgIDHeader] assms(2) by (simp add: HeaderCarrier_Values_def)
  then show ?thesis by (simp add: HeaderCarrier_Values_def values_eq split: option.splits)
qed

end

text \<open>
  C32. The publish core. Exactly one message goes out, with the subject and payload it was given, on
  the caller's own span context (an ordinary publish inherits its caller's cancellation, unlike a
  dead-letter capture) bounded by the configured timeout or five seconds; the call fails exactly when
  the broker's publish does, and returns its acknowledgement unchanged otherwise; and a dedupe id is
  on the message as the only \<open>Nats-Msg-Id\<close>, as long as the propagator does not claim that header.
\<close>

theorem Publish_once:
  assumes "header_laws L" and "r = Publish L ot p c m msgID attrs"
    and "span_ctx = otStart ot c (prSpan r)"
    and "timeout = (if pbTimeout p = 0 then 5 * second else pbTimeout p)"
  shows "prCalls r = [CallPublish (withTimeout span_ctx timeout) (prMsg r)] \<and>
     nmSubject (prMsg r) = nmSubject m \<and> nmData (prMsg r) = nmData m \<and>
     (case pbJS p (withTimeout span_ctx timeout) (prMsg r) of
        Inr ack \<Rightarrow> prResult r = Inr ack
      | Inl e \<Rightarrow> (\<exists>ctxt. prResult r = Inl (Errorf ctxt e))) \<and>
     (ctxErr span_ctx \<noteq> None \<longrightarrow> ctxErr (withTimeout span_ctx timeout) = ctxErr span_ctx) \<and>
     (msgID \<noteq> [] \<and> map_of (rev (otInject ot span_ctx)) MsgIDHeader = None \<longrightarrow>
        (\<exists>h. nmHeader (prMsg r) = Some h \<and> h MsgIDHeader = Some [msgID]))"
proof -
  let ?name = "if pbOperation p = [] then ''publish '' @ nmSubject m else pbOperation p"
  let ?t = "if pbTimeout p = 0 then DefaultPublishTimeout else pbTimeout p"
  obtain c1 sp where st: "StartProducerSpan ot c (nmSubject m) ?name attrs = (c1, sp)"
    by (metis prod.exhaust)
  let ?out = "Inject L ot c1 (with_msg_id L msgID m)"
  let ?ack = "pbJS p (withTimeout c1 ?t) ?out"
  note unf = assms(2) Publish_def st Let_def prod.case
  have sp: "prSpan r = sp" unfolding unf by (cases ?ack) simp_all
  have msg: "prMsg r = ?out" unfolding unf by (cases ?ack) simp_all
  have calls: "prCalls r = [CallPublish (withTimeout c1 ?t) ?out]" unfolding unf by (cases ?ack) simp_all
  have res: "case ?ack of Inr ack \<Rightarrow> prResult r = Inr ack | Inl e \<Rightarrow> (\<exists>ctxt. prResult r = Inl (Errorf ctxt e))"
    unfolding unf by (cases ?ack) simp_all
  have c1: "span_ctx = c1" unfolding assms(3) sp using st by (auto simp: StartProducerSpan_def Let_def)
  have t: "timeout = ?t" using assms(4) by (simp only: DefaultPublishTimeout_def)
  have ident: "\<exists>h. nmHeader (prMsg r) = Some h \<and> h MsgIDHeader = Some [msgID]"
    if "msgID \<noteq> []" "map_of (rev (otInject ot c1)) MsgIDHeader = None"
  proof -
    obtain h where h: "nmHeader ?out = Some h" using Inject_frame(3) by blast
    with nats_header.msg_id_published [OF nats_header.intro [OF assms(1)] that h] show ?thesis
      by (simp only: msg) blast
  qed
  have cancelled: "ctxErr (withTimeout c1 ?t) = ctxErr c1" if "ctxErr c1 \<noteq> None"
    using that by (auto simp: withTimeout_def)
  show ?thesis
    unfolding c1 t calls msg Inject_frame with_msg_id_frame
    using res ident [unfolded msg] cancelled by blast
qed

theorem Publish_once_witness:
  "\<exists>h. nmHeader (prMsg (Publish std_header_lib sample_otel
       \<lparr>pbJS = (\<lambda>_ _. Inr \<lparr>paStream = ''orders'', paSequence = 1, paDuplicate = False\<rparr>), pbTimeout = 0, pbOperation = []\<rparr>
       background \<lparr>nmSubject = ''orders.new'', nmData = [], nmHeader = None\<rparr> ''id-7'' [])) = Some h \<and>
     h MsgIDHeader = Some [''id-7'']"
  using Publish_once [OF stdheader.laws refl refl refl, of sample_otel
      "\<lparr>pbJS = (\<lambda>_ _. Inr \<lparr>paStream = ''orders'', paSequence = 1, paDuplicate = False\<rparr>), pbTimeout = 0, pbOperation = []\<rparr>"
      background "\<lparr>nmSubject = ''orders.new'', nmData = [], nmHeader = None\<rparr>" "''id-7''" "[]"]
  by (simp add: sample_otel_def MsgIDHeader_def)

end
