(* ===== verification/FakeMsg.thy ===== *)
theory FakeMsg
  imports JetMsg
begin

text \<open>
  \<open>natsmsg/natsmsgtest/fakemsg.go\<close>: the message double the module's tests observe dispositions with.
  \<open>fake_msg\<close> is the struct, each method a function of it, and \<open>as_msg\<close> the \<open>jetstream.Msg\<close> it is to the
  code. The result shows that the double is a faithful ledger of the trace of calls made on it.
\<close>

record fake_msg =
  fkSubjectVal :: string
  fkDataVal :: "byte list"
  fkHeadersVal :: "header option"
  fkMeta :: "msg_metadata option"
  fkMetaErr :: "goerr option"
  fkNakErr :: "goerr option"
  fkTermErr :: "goerr option"
  fkAckErr :: "goerr option"
  fkAcked :: bool
  fkDoubleAcks :: int
  fkTermed :: bool
  fkNaks :: int
  fkNakDelays :: "duration list"
  fkInProgressN :: int

definition Fake_Metadata :: "fake_msg \<Rightarrow> goerr + msg_metadata option" where
  "Fake_Metadata m =
     (case fkMetaErr m of
        Some e \<Rightarrow> Inl e
      | None \<Rightarrow> (case fkMeta m of
          Some md \<Rightarrow> Inr (Some md)
        | None \<Rightarrow> Inl (NewErr ''fakemsg: no metadata set'')))"

text \<open>The disposition methods: what each returns and what it records. Any other call is not one of the
  double's.\<close>

fun fake_call :: "msg_call \<Rightarrow> fake_msg \<Rightarrow> goerr option \<times> fake_msg" where
  "fake_call CallAck m = (fkAckErr m, m\<lparr>fkAcked := True\<rparr>)"
| "fake_call (CallDoubleAck c) m = (fkAckErr m, m\<lparr>fkAcked := True, fkDoubleAcks := fkDoubleAcks m + 1\<rparr>)"
| "fake_call CallNak m = (fkNakErr m, m\<lparr>fkNaks := fkNaks m + 1\<rparr>)"
| "fake_call (CallNakWithDelay d) m = (fkNakErr m, m\<lparr>fkNakDelays := fkNakDelays m @ [d]\<rparr>)"
| "fake_call CallInProgress m = (None, m\<lparr>fkInProgressN := fkInProgressN m + 1\<rparr>)"
| "fake_call CallTerm m = (fkTermErr m, m\<lparr>fkTermed := True\<rparr>)"
| "fake_call (CallTermWithReason r) m = (fkTermErr m, m\<lparr>fkTermed := True\<rparr>)"
| "fake_call (CallPublish c out) m = (None, m)"

definition as_msg :: "fake_msg \<Rightarrow> jmsg" where
  "as_msg m = \<lparr>msgSubject = fkSubjectVal m, msgData = fkDataVal m, msgHeaders = fkHeadersVal m,
     msgMetadata = Fake_Metadata m, ansAck = fst (fake_call CallAck m),
     ansDoubleAck = (\<lambda>c. fst (fake_call (CallDoubleAck c) m)), ansNak = fst (fake_call CallNak m),
     ansNakWithDelay = (\<lambda>d. fst (fake_call (CallNakWithDelay d) m)),
     ansInProgress = fst (fake_call CallInProgress m), ansTerm = fst (fake_call CallTerm m)\<rparr>"

definition fake_calls :: "msg_call list \<Rightarrow> fake_msg \<Rightarrow> fake_msg" where
  "fake_calls calls m = fold (\<lambda>call m. snd (fake_call call m)) calls m"

fun nak_delays :: "msg_call list \<Rightarrow> duration list" where
  "nak_delays [] = []"
| "nak_delays (CallNakWithDelay d # cs) = d # nak_delays cs"
| "nak_delays (c # cs) = nak_delays cs"

fun is_double_ack :: "msg_call \<Rightarrow> bool" where
  "is_double_ack (CallDoubleAck c) = True"
| "is_double_ack _ = False"

lemma as_msg_stable: "as_msg (snd (fake_call call m)) = as_msg m"
  by (cases call) (simp_all add: as_msg_def Fake_Metadata_def split: option.split)

lemma fake_calls_simps [simp]:
  "fake_calls [] m = m" "fake_calls (c # cs) m = fake_calls cs (snd (fake_call c m))"
  by (simp_all add: fake_calls_def)

text \<open>
  The double is a faithful ledger. After any calls, its answers are what they were, and its fields
  say exactly what was done: whether the message was acknowledged or Termed at all, how many double
  acknowledgements, plain Naks and extensions there were, and the delays of the delayed Naks in order.
\<close>

theorem fake_is_ledger:
  "as_msg (fake_calls calls m) = as_msg m \<and>
   fkAcked (fake_calls calls m) = (fkAcked m \<or> list_ex acks calls) \<and>
   fkTermed (fake_calls calls m) = (fkTermed m \<or> list_ex terms calls) \<and>
   fkDoubleAcks (fake_calls calls m) = fkDoubleAcks m + int (length (filter is_double_ack calls)) \<and>
   fkNaks (fake_calls calls m) = fkNaks m + int (count_list calls CallNak) \<and>
   fkInProgressN (fake_calls calls m) = fkInProgressN m + int (count_list calls CallInProgress) \<and>
   fkNakDelays (fake_calls calls m) = fkNakDelays m @ nak_delays calls"
proof (induction calls arbitrary: m)
  case (Cons c cs)
  from Cons.IH [of "snd (fake_call c m)"] as_msg_stable [of c m] show ?case
    by (cases c) simp_all
qed simp

end
