(* ===== verification/Spec2Isabelle.thy ===== *)
theory Spec2Isabelle
  imports Settle TraceContext Consumer Shutdown Publish FakeMsg
begin

text \<open>
  Verification library of go-nuts (\<open>github.com/entireio/go-nuts\<close>), the shared NATS plumbing of a fleet
  of services: connections, graceful shutdown, durable JetStream consumers, their retry mechanism and
  the dead-letter capture. Every function of the module that carries logic is a definition here, and the
  properties are what its documentation promises of them.

  \<^bold>\<open>The program and the theories.\<close> One theory per source file, or two where a file has an operation and a
  concurrent protocol.

  \<^item> \<open>GoPrelude\<close>: what the code takes from Go. Durations and times are \<open>int\<close> nanoseconds with \<open>wrap64\<close>
    written where int64 arithmetic can wrap and \<open>time_sub\<close> saturating; \<open>uint64\<close> is a 64-bit word;
    decimal printing and parsing; ASCII folding; errors as a tree of wrappings over sentinels with
    \<open>errors_is\<close> and the contract \<open>error_class\<close> of a classifier; contexts with values, error and deadline.
    \<open>Float64\<close>: binary64 with one rounding per operation, and \<open>math.Pow\<close> for the integral exponents the
    code uses. \<open>JetMsg\<close>: a \<open>jetstream.Msg\<close> as what its methods answer, and the trace of calls made on it.
  \<^item> \<open>Transition\<close>: reachability, and the contracts \<open>inductive_invariant\<close> and \<open>ranked_progress\<close> that the
    three interleaving models below are interpretations of.
  \<^item> \<open>Backoff\<close> (\<open>backoff/backoff.go\<close>), \<open>TraceContext\<close>, \<open>DeadLetterCapture\<close>, \<open>Publish\<close> and
    \<open>Heartbeat\<close> (\<open>natsmsg/tracecontext.go\<close>, \<open>deadletter.go\<close>, \<open>publish.go\<close>, \<open>keepinprogress.go\<close>), \<open>FakeMsg\<close>
    (\<open>natsmsg/natsmsgtest/fakemsg.go\<close>).
  \<^item> \<open>Schedule\<close>, \<open>FloorMon\<close> (\<open>jsconsumer/schedule.go\<close>, \<open>floor.go\<close>); \<open>Retry\<close> and \<open>Settle\<close>
    (\<open>jsconsumer/retry.go\<close>: the state, clocks and breaker, then the settlement of a delivery).
  \<^item> \<open>Consumer\<close> and \<open>RunnerLife\<close> (\<open>jsconsumer/jsconsumer.go\<close>: configuration, start, supervision, stop and
    the message prologue; then the runner's goroutines and stop callers as an interleaving).
  \<^item> \<open>DrainConn\<close>, \<open>Connect\<close>, \<open>Shutdown\<close> (\<open>drain.go\<close>, \<open>connect.go\<close>, \<open>shutdown.go\<close>).
  \<^item> This theory: the properties that span components.

  \<^bold>\<open>How the parts interact.\<close> \<open>Connect\<close> dials; \<open>Start\<close> validates a \<open>Config\<close> (through \<open>Schedule.Validate\<close>,
  against the stream's retention as well), creates the consumer and starts a loop whose deliveries go to
  the handler, usually through \<open>Process\<close>; a failing handler calls \<open>Retry.Settle\<close>, which reads the
  \<open>FloorMonitor\<close> the runner polls, and either leaves the message to the server's ladder or captures it with
  \<open>natsmsg.DeadLetter\<close> and acknowledges it; \<open>Run\<close> supervises; a \<open>ShutdownGroup\<close> cancels the loops, joins
  them, each stopping as \<open>Runner.Stop\<close> does, and only then drains the connections. Shared state is
  explicit: monitors are a heap of addresses, the \<open>Retry\<close> is a record passed along.

  \<^bold>\<open>What the properties show.\<close> No loss: \<open>Settle\<close> sends only a confirmed acknowledgement, after an accepted
  copy; every failing message of a started consumer ends within the cap the server has, and within the
  stream's retention when the delivery that spends the ladder can capture; the copy keeps
  the application's headers, nothing of the broker's namespace but the provenance, and the origin is
  written once. The breaker acts on its documented evidence and never beyond its budget; the monitor's
  state refines the history of its readings; validation accepts exactly the schedules that are coherent
  in unbounded arithmetic. Graceful shutdown: in every interleaving connections are drained after the
  join, a nil \<open>Shutdown\<close> means a clean one, a live failure stops the group, and \<open>Shutdown\<close> and \<open>Stop\<close> end;
  a handler is not cancelled before its window; the heartbeat never outlives its stop. Connections: no
  plaintext unless asked for, no connection left half-drained. Where a lemma names an equality with a
  simpler function (\<open>Settle_by_branch\<close>, \<open>shouldQuarantine_is_conjunction\<close>, \<open>run_loop_waits\<close>), the
  properties of its group rest on it.

  \<^bold>\<open>Parameters.\<close> Code that is not in the module is an argument: the accessors of \<open>nats.Header\<close>
  (\<open>header_laws\<close>, interpreted by a concrete map), the propagator and tracer of OpenTelemetry, publishers,
  JetStream's answers (\<open>js_world\<close>), the environment, the file system and \<open>crypto/x509\<close> (\<open>tls_world\<close>), the dial,
  a connection's answers (\<open>nats_conn\<close>), clocks, and the iteration order of a Go map (\<open>order\<close>, any permutation).
  The scheduler of a \<open>select\<close> with a timer is \<open>wait_sched\<close>, constrained by \<open>sched_ok\<close> only: a case is taken
  once it is ready. Of the consume loop \<open>RunnerLife\<close> uses that \<open>Closed()\<close> closes after the last handler.

  \<^bold>\<open>Bounds.\<close> No definition uses fuel. Loops that run for ever in Go (\<open>Run\<close>, the poll, the ticker) are functions
  of the finite list of events they meet, or transition systems; recursion is structural. Termination is
  \<open>ranked_progress\<close>: at most four steps and one per connection for \<open>Shutdown\<close>, ten for a \<open>Stop\<close>, bounded
  ticks for the heartbeat. Theorems about sums of durations state the range in which int64 does not wrap
  (\<open>representable\<close>), and \<open>ladder_bounds_wrap\<close> what happens outside it.

  \<^bold>\<open>Not modelled.\<close> Attributes of log lines and spans beyond those named, the ending of spans, the text of
  formatted errors beyond what is inspected, panics' stack traces, the choice between a caller's tracer and
  the global one, the context and message passed to \<open>OnSettle\<close>, and the memory model below the mutexes:
  each critical section is atomic, as the code's locks make it, and \<open>Settle\<close>, which takes several, is one
  step, so what another delivery does between them is outside its properties. The join of a \<open>ShutdownGroup\<close>
  may expire at any time before it is done, which includes every run of the code. \<open>doc.go\<close> files hold comments only, and \<open>internal/brokersemantics\<close> is a test suite against a
  real server.
\<close>

section \<open>From configuration to the last delivery\<close>

lemma demo_started:
  "\<exists>rn calls. Start (\<lambda>_. adopter_monitor) demo_js background True True demo_consumer = (Inr rn, calls)"
proof -
  have ok: "Validate (adopter_schedule\<lparr>scStreamMaxAge := 24 * hour\<rparr>) = []" by code_simp
  have "jwStream demo_js (cfStream demo_consumer) = Inr (Some (24 * hour))" by (simp add: demo_js_def)
  then have "fst (checkAgainstStream (\<lambda>_. adopter_monitor) demo_js demo_consumer) = None"
    using ok by (simp add: checkAgainstStream_def demo_schedule Schedule_Err_None [THEN iffD2])
  then show ?thesis
    using demo_validate
    by (cases "checkAgainstStream (\<lambda>_. adopter_monitor) demo_js demo_consumer")
      (simp add: Start_def demo_js_def Let_def)
qed




section \<open>The budgets of a shutdown\<close>

lemma default_budgets:
  "DefaultDrainWindow + 5 * second = DefaultJoinTimeout"
  "sgJoinTimeout (NewShutdownGroup cause []) = DefaultJoinTimeout"
  "sgDrainTimeout (NewShutdownGroup cause []) = DefaultDrainTimeout"
  "ccDrainTimeout (resolve_config []) = DefaultDrainTimeout"
  by (simp_all add: DefaultDrainWindow_def DefaultJoinTimeout_def second_def NewShutdownGroup_def resolve_config_def)

text \<open>The publish timeout of a capture is as long as the whole join, so one begun after the cancellation
  can outlast it.\<close>

lemma capture_fills_the_join: "dlqPublishTimeout = DefaultJoinTimeout"
  by (simp add: dlqPublishTimeout_def DefaultJoinTimeout_def)

text \<open>
  C21. On defaults the budgets of a shutdown nest. A handler that finishes within the consumer's drain
  window is neither reported nor cancelled before its loop has closed; when its loop returns at most
  five seconds after it did, the group's join does not time out; and a connection dialled and drained on
  defaults that closes within its own drain timeout and the client's publish flush is not force-closed.
\<close>

theorem default_budgets_nest:
  assumes "Start mons w c hasConn hasOnMsg cfg = (Inr rn, calls)" and "cfDrainWindow cfg = 0"
    and "swClosesAt sw = Some t" and "t \<le> DefaultDrainWindow" and "sched_ok (Some t) (rnDrainWindow rn) (swSched sw)"
    and "g = NewShutdownGroup cause []" and "t' \<le> t + 5 * second" and "sched_ok (Some t') (sgJoinTimeout g) jw"
    and "ncOptDrainTimeout nc = ccDrainTimeout (resolve_config [])" and "ncDrainAnswer nc = None"
    and "ncClosedAt nc = Some d" and "d \<le> ncOptDrainTimeout nc + natsPublishDrainTimeout"
    and "sched_ok (Some d) (drainBackstop g (Some nc)) (ncSched nc)"
  shows "Runner_Stop (Some rn) True sw = [StopPulling, AwaitClosed, CancelHandlers] @ Runner_Stop (Some rn) False sw \<and>
     \<not> waitTimedOut (Some t') (sgJoinTimeout g) jw \<and>
     fst (Drain (Some nc) name (drainBackstop g (Some nc))) = None"
proof -
  have window: "rnDrainWindow rn = DefaultDrainWindow"
    using Start_Inr(3) [OF assms(1)] assms(2) by (simp add: EffectiveDrainWindow_def)
  have "\<not> windowElapsed (Some t) (rnDrainWindow rn) (swSched sw)"
    using drain_window.in_time [OF assms(5)] assms(4) by (simp add: window signalled_def)
  then have stop: "Runner_Stop (Some rn) True sw = [StopPulling, AwaitClosed, CancelHandlers] @ Runner_Stop (Some rn) False sw"
    by (simp add: Runner_Stop_def assms(3))
  have "t' \<le> sgJoinTimeout g"
    using assms(4,7) default_budgets(1) unfolding assms(6) default_budgets(2) by linarith
  then have join: "\<not> waitTimedOut (Some t') (sgJoinTimeout g) jw"
    using group_wait.in_time [OF assms(8)] by (simp add: signalled_def)
  have "d \<le> drainBackstop g (Some nc)"
    using assms(9,12) unfolding assms(6) default_budgets(4)
    by (simp add: drainBackstop_def default_budgets(3) DefaultDrainTimeout_def natsPublishDrainTimeout_def
        second_def wrap64_id in_i64_def)
  then have "\<not> waitTimedOut (Some d) (drainBackstop g (Some nc)) (ncSched nc)"
    using group_wait.in_time [OF assms(13)] by (simp add: signalled_def)
  then have "fst (Drain (Some nc) name (drainBackstop g (Some nc))) = None"
    by (simp add: Drain_def assms(10,11))
  then show ?thesis using stop join by blast
qed

definition brisk_conn :: nats_conn where
  "brisk_conn = \<lparr>ncIsClosed = False, ncDrainAnswer = None, ncClosedAt = Some second, ncOptDrainTimeout = 5 * second,
     ncSched = \<lparr>wsWoke = second, wsPickDone = True, wsRecheck = second\<rparr>\<rparr>"

theorem default_budgets_nest_witness:
  "\<exists>rn. fst (Start (\<lambda>_. adopter_monitor) demo_js background True True demo_consumer) = Inr rn \<and>
     fst (Drain (Some brisk_conn) ''worker'' (drainBackstop (NewShutdownGroup None []) (Some brisk_conn))) = None"
proof -
  obtain rn calls where s: "Start (\<lambda>_. adopter_monitor) demo_js background True True demo_consumer = (Inr rn, calls)"
    using demo_started by blast
  let ?sw = "\<lparr>swClosesAt = Some 4, swInFlight = False, swSched = \<lparr>wsWoke = 4, wsPickDone = True, wsRecheck = 4\<rparr>\<rparr>"
  let ?jw = "\<lparr>wsWoke = 5, wsPickDone = True, wsRecheck = 5\<rparr>"
  have "fst (Drain (Some brisk_conn) ''worker'' (drainBackstop (NewShutdownGroup None []) (Some brisk_conn))) = None"
    using default_budgets_nest [OF s, of ?sw 4 "NewShutdownGroup None []" None 5 ?jw brisk_conn second "''worker''"]
    by (simp add: demo_consumer_def DefaultDrainWindow_def second_def sched_ok_def signalled_def default_budgets
        DefaultDrainTimeout_def natsPublishDrainTimeout_def brisk_conn_def)
  then show ?thesis using s by simp
qed

end
